theory Spec2Isabelle
  imports Complex_Main "HOL-Library.AList"
begin

section \<open>JavaScript values\<close>

text \<open>
  The serialization module works on plain JSON-like structures.  A value is one of the
  JavaScript primitives, an array or an object.  Numbers are the finite doubles, taken as
  rationals, plus \<open>NaN\<close> and the two infinities.  An object is an association list in
  insertion order; the model has no function values, so a property holding a function (a
  live document handle's \<open>toObject\<close>) is represented by the kind of handle, below.
\<close>

datatype jsval =
    Undefined
  | Null
  | Bool bool
  | Num rat
  | NaN
  | PosInf
  | NegInf
  | Str string
  | Arr "jsval list"
  | Obj "(string \<times> jsval) list"

datatype error = TypeError | ConfigError

text \<open>JavaScript truthiness (\<open>if (x)\<close>, \<open>!x\<close>).\<close>

fun truthy :: "jsval \<Rightarrow> bool" where
  "truthy Undefined = False"
| "truthy Null = False"
| "truthy (Bool b) = b"
| "truthy (Num r) = (r \<noteq> 0)"
| "truthy NaN = False"
| "truthy PosInf = True"
| "truthy NegInf = True"
| "truthy (Str s) = (s \<noteq> [])"
| "truthy (Arr xs) = True"
| "truthy (Obj kvs) = True"

text \<open>Sequencing of steps that may throw.\<close>

definition bind_err :: "error + 'a \<Rightarrow> ('a \<Rightarrow> error + 'b) \<Rightarrow> error + 'b" where
  "bind_err m f = (case m of Inl e \<Rightarrow> Inl e | Inr x \<Rightarrow> f x)"

fun map_err :: "('a \<Rightarrow> error + 'b) \<Rightarrow> 'a list \<Rightarrow> error + 'b list" where
  "map_err f [] = Inr []"
| "map_err f (x # xs) =
     bind_err (f x) (\<lambda>y. bind_err (map_err f xs) (\<lambda>ys. Inr (y # ys)))"

section \<open>Conversion to numbers\<close>

text \<open>
  The language's conversion of a string to a number: white space is trimmed (a string is
  a list of bytes here, so the white space beyond ASCII is given in UTF-8), the empty
  string is \<open>0\<close>, then a hexadecimal, octal or binary literal, or a signed decimal literal
  with optional fraction and exponent, or a signed \<open>Infinity\<close>; anything else is \<open>NaN\<close>.
\<close>

definition white_space :: "string list" where
  "white_space =
     [[CHR 0x09], [CHR 0x0A], [CHR 0x0B], [CHR 0x0C], [CHR 0x0D], [CHR 0x20],
      [CHR 0xC2, CHR 0xA0], [CHR 0xE1, CHR 0x9A, CHR 0x80],
      [CHR 0xE2, CHR 0x80, CHR 0x80], [CHR 0xE2, CHR 0x80, CHR 0x81],
      [CHR 0xE2, CHR 0x80, CHR 0x82], [CHR 0xE2, CHR 0x80, CHR 0x83],
      [CHR 0xE2, CHR 0x80, CHR 0x84], [CHR 0xE2, CHR 0x80, CHR 0x85],
      [CHR 0xE2, CHR 0x80, CHR 0x86], [CHR 0xE2, CHR 0x80, CHR 0x87],
      [CHR 0xE2, CHR 0x80, CHR 0x88], [CHR 0xE2, CHR 0x80, CHR 0x89],
      [CHR 0xE2, CHR 0x80, CHR 0x8A], [CHR 0xE2, CHR 0x80, CHR 0xA8],
      [CHR 0xE2, CHR 0x80, CHR 0xA9], [CHR 0xE2, CHR 0x80, CHR 0xAF],
      [CHR 0xE2, CHR 0x81, CHR 0x9F], [CHR 0xE3, CHR 0x80, CHR 0x80],
      [CHR 0xEF, CHR 0xBB, CHR 0xBF]]"

function strip_prefixes :: "string list \<Rightarrow> string \<Rightarrow> string" where
  "strip_prefixes ws s =
     (case find (\<lambda>w. w \<noteq> [] \<and> take (length w) s = w) ws of
        None \<Rightarrow> s
      | Some w \<Rightarrow> strip_prefixes ws (drop (length w) s))"
  by pat_completeness auto
termination
proof (relation "measure (\<lambda>(ws, s). length s)")
  show "wf (measure (\<lambda>(ws, s). length s))" by simp
next
  fix ws :: "string list" and s w :: string
  assume "find (\<lambda>w. w \<noteq> [] \<and> take (length w) s = w) ws = Some w"
  then have w: "w \<noteq> []" "take (length w) s = w" by (auto simp add: find_Some_iff)
  then have "s \<noteq> []" by auto
  with w show "((ws, drop (length w) s), (ws, s)) \<in> measure (\<lambda>(ws, s). length s)"
    by (cases w) auto
qed

definition trim :: "string \<Rightarrow> string" where
  "trim s = rev (strip_prefixes (map rev white_space) (rev (strip_prefixes white_space s)))"

definition digit_of :: "char \<Rightarrow> nat" where
  "digit_of c =
     (let n = (of_char c :: nat)
      in if 48 \<le> n \<and> n \<le> 57 then n - 48
         else if 97 \<le> n \<and> n \<le> 102 then n - 87
         else if 65 \<le> n \<and> n \<le> 70 then n - 55
         else 99)"

definition digits_value :: "nat \<Rightarrow> string \<Rightarrow> nat" where
  "digits_value base cs = foldl (\<lambda>a c. a * base + digit_of c) 0 cs"

definition all_digits :: "nat \<Rightarrow> string \<Rightarrow> bool" where
  "all_digits base cs = (cs \<noteq> [] \<and> list_all (\<lambda>c. digit_of c < base) cs)"

definition radix_literal :: "string \<Rightarrow> nat option" where
  "radix_literal t =
     (case t of
        z # x # ds \<Rightarrow>
          (if z = CHR ''0'' \<and> (x = CHR ''x'' \<or> x = CHR ''X'') \<and> all_digits 16 ds
           then Some (digits_value 16 ds)
           else if z = CHR ''0'' \<and> (x = CHR ''o'' \<or> x = CHR ''O'') \<and> all_digits 8 ds
           then Some (digits_value 8 ds)
           else if z = CHR ''0'' \<and> (x = CHR ''b'' \<or> x = CHR ''B'') \<and> all_digits 2 ds
           then Some (digits_value 2 ds)
           else None)
      | _ \<Rightarrow> None)"

definition exponent_part :: "string \<Rightarrow> int option" where
  "exponent_part r =
     (case r of
        [] \<Rightarrow> Some 0
      | e # r1 \<Rightarrow>
          if e = CHR ''e'' \<or> e = CHR ''E''
          then (case r1 of
                  [] \<Rightarrow> None
                | s # r2 \<Rightarrow>
                    if s = CHR ''-'' then (if all_digits 10 r2 then Some (- int (digits_value 10 r2)) else None)
                    else if s = CHR ''+'' then (if all_digits 10 r2 then Some (int (digits_value 10 r2)) else None)
                    else (if all_digits 10 r1 then Some (int (digits_value 10 r1)) else None))
          else None)"

definition scale10 :: "rat \<Rightarrow> int \<Rightarrow> rat" where
  "scale10 m e = (if 0 \<le> e then m * 10 ^ nat e else m / 10 ^ nat (- e))"

definition unsigned_decimal :: "string \<Rightarrow> rat option" where
  "unsigned_decimal t =
     (let ip = takeWhile (\<lambda>c. digit_of c < 10) t;
          r1 = dropWhile (\<lambda>c. digit_of c < 10) t;
          dot = (r1 \<noteq> [] \<and> hd r1 = CHR ''.'');
          fp = (if dot then takeWhile (\<lambda>c. digit_of c < 10) (tl r1) else []);
          r2 = (if dot then dropWhile (\<lambda>c. digit_of c < 10) (tl r1) else r1)
      in if ip = [] \<and> fp = [] then None
         else (case exponent_part r2 of
                 None \<Rightarrow> None
               | Some e \<Rightarrow>
                   Some (scale10 (of_nat (digits_value 10 (ip @ fp))) (e - int (length fp)))))"

definition signed_decimal :: "bool \<Rightarrow> string \<Rightarrow> jsval" where
  "signed_decimal neg t =
     (if t = ''Infinity'' then (if neg then NegInf else PosInf)
      else (case unsigned_decimal t of
              None \<Rightarrow> NaN
            | Some r \<Rightarrow> Num (if neg then - r else r)))"

definition string_to_number :: "string \<Rightarrow> jsval" where
  "string_to_number s =
     (let t = trim s
      in if t = [] then Num 0
         else (case radix_literal t of
                 Some n \<Rightarrow> Num (of_nat n)
               | None \<Rightarrow>
                   if hd t = CHR ''-'' then signed_decimal True (tl t)
                   else if hd t = CHR ''+'' then signed_decimal False (tl t)
                   else signed_decimal False t))"

text \<open>
  Conversion of an object to a primitive.  A plain object has the inherited \<open>toString\<close>,
  which gives \<open>"[object Object]"\<close>, unless it has a \<open>toString\<close> key of its own: its value is
  no function, the inherited \<open>valueOf\<close> gives no primitive, and the conversion throws.
  An array is joined with commas, \<open>undefined\<close> and \<open>null\<close> elements as empty strings.
\<close>

fun to_string_throws :: "jsval \<Rightarrow> bool" where
  "to_string_throws (Obj kvs) = (''toString'' \<in> fst ` set kvs)"
| "to_string_throws (Arr xs) =
     list_ex (\<lambda>x. x \<noteq> Undefined \<and> x \<noteq> Null \<and> to_string_throws x) xs"
| "to_string_throws v = False"

text \<open>
  The number that the string form of a value converts to: for a number that number
  itself, for a string its conversion, for an array with several elements \<open>NaN\<close> (the
  string has a comma), for an array with one element what that element gives.
\<close>

fun string_form_number :: "jsval \<Rightarrow> jsval" where
  "string_form_number (Num r) = Num r"
| "string_form_number PosInf = PosInf"
| "string_form_number NegInf = NegInf"
| "string_form_number (Str s) = string_to_number s"
| "string_form_number (Arr []) = Num 0"
| "string_form_number (Arr [x]) =
     (if x = Undefined \<or> x = Null then Num 0 else string_form_number x)"
| "string_form_number (Arr (x # y # zs)) = NaN"
| "string_form_number v = NaN"

text \<open>\<open>ToNumber\<close>: a number, \<open>NaN\<close> or an infinity, or a \<open>TypeError\<close>.\<close>

fun to_number :: "jsval \<Rightarrow> error + jsval" where
  "to_number Undefined = Inr NaN"
| "to_number Null = Inr (Num 0)"
| "to_number (Bool b) = Inr (Num (if b then 1 else 0))"
| "to_number (Num r) = Inr (Num r)"
| "to_number NaN = Inr NaN"
| "to_number PosInf = Inr PosInf"
| "to_number NegInf = Inr NegInf"
| "to_number (Str s) = Inr (string_to_number s)"
| "to_number (Arr xs) =
     (if to_string_throws (Arr xs) then Inl TypeError else Inr (string_form_number (Arr xs)))"
| "to_number (Obj kvs) = (if to_string_throws (Obj kvs) then Inl TypeError else Inr NaN)"

text \<open>
  \<open>x > n\<close> and \<open>x <= n\<close> against a number \<open>n\<close>: false as soon as \<open>x\<close> converts to \<open>NaN\<close>.
  \<open>js_between x lo hi\<close> is \<open>x > lo && x <= hi\<close>.
\<close>

definition js_gt :: "jsval \<Rightarrow> rat \<Rightarrow> error + bool" where
  "js_gt x n =
     bind_err (to_number x)
       (\<lambda>v. Inr (case v of Num r \<Rightarrow> n < r | PosInf \<Rightarrow> True | _ \<Rightarrow> False))"

definition js_le :: "jsval \<Rightarrow> rat \<Rightarrow> error + bool" where
  "js_le x n =
     bind_err (to_number x)
       (\<lambda>v. Inr (case v of Num r \<Rightarrow> r \<le> n | NegInf \<Rightarrow> True | _ \<Rightarrow> False))"

definition js_between :: "jsval \<Rightarrow> rat \<Rightarrow> rat \<Rightarrow> error + bool" where
  "js_between x lo hi = bind_err (js_gt x lo) (\<lambda>g. if g then js_le x hi else Inr False)"

text \<open>
  \<open>Math.max(a, b)\<close>: both arguments are converted, in order; \<open>NaN\<close> when one of them
  converts to \<open>NaN\<close>.
\<close>

definition number_max :: "jsval \<Rightarrow> jsval \<Rightarrow> jsval" where
  "number_max a b =
     (case a of
        Num x \<Rightarrow>
          (case b of Num y \<Rightarrow> Num (max x y) | PosInf \<Rightarrow> PosInf | NegInf \<Rightarrow> Num x | _ \<Rightarrow> NaN)
      | PosInf \<Rightarrow>
          (case b of Num y \<Rightarrow> PosInf | PosInf \<Rightarrow> PosInf | NegInf \<Rightarrow> PosInf | _ \<Rightarrow> NaN)
      | NegInf \<Rightarrow>
          (case b of Num y \<Rightarrow> Num y | PosInf \<Rightarrow> PosInf | NegInf \<Rightarrow> NegInf | _ \<Rightarrow> NaN)
      | _ \<Rightarrow> NaN)"

definition math_max :: "jsval \<Rightarrow> jsval \<Rightarrow> error + jsval" where
  "math_max a b =
     bind_err (to_number a) (\<lambda>x. bind_err (to_number b) (\<lambda>y. Inr (number_max x y)))"

text \<open>
  Property read \<open>x.k\<close>: a \<open>TypeError\<close> on \<open>undefined\<close> and \<open>null\<close>, \<open>undefined\<close> for a
  missing key and for the primitives and arrays, which carry none of the keys this
  module reads.
\<close>

fun get_prop :: "jsval \<Rightarrow> string \<Rightarrow> error + jsval" where
  "get_prop Undefined k = Inl TypeError"
| "get_prop Null k = Inl TypeError"
| "get_prop (Obj kvs) k = Inr (case map_of kvs k of None \<Rightarrow> Undefined | Some v \<Rightarrow> v)"
| "get_prop v k = Inr Undefined"

text \<open>Index read \<open>x[i]\<close>.\<close>

fun index_key :: "nat \<Rightarrow> string" where
  "index_key i = (if i = 0 then ''0'' else if i = 1 then ''1'' else ''?'')"

fun get_index :: "jsval \<Rightarrow> nat \<Rightarrow> error + jsval" where
  "get_index Undefined i = Inl TypeError"
| "get_index Null i = Inl TypeError"
| "get_index (Arr xs) i = Inr (if i < length xs then xs ! i else Undefined)"
| "get_index (Str s) i = Inr (if i < length s then Str [s ! i] else Undefined)"
| "get_index (Obj kvs) i = get_prop (Obj kvs) (index_key i)"
| "get_index v i = Inr Undefined"

text \<open>
  Property write \<open>x.k = v\<close> and \<open>delete x.k\<close>.  The module is not in strict mode: a
  write to a primitive is dropped.  An existing key keeps its place, a new one goes last.
  Every write in this module follows a read of the same receiver, which has thrown on
  \<open>undefined\<close> and \<open>null\<close>, so the writes themselves never throw.
\<close>

fun set_prop :: "jsval \<Rightarrow> string \<Rightarrow> jsval \<Rightarrow> jsval" where
  "set_prop (Obj kvs) k v = Obj (AList.update k v kvs)"
| "set_prop x k v = x"

fun delete_prop :: "jsval \<Rightarrow> string \<Rightarrow> jsval" where
  "delete_prop (Obj kvs) k = Obj (AList.delete k kvs)"
| "delete_prop x k = x"

text \<open>The keys of an object, for statements about which fields a document has.\<close>

fun obj_keys :: "jsval \<Rightarrow> string set" where
  "obj_keys (Obj kvs) = fst ` set kvs"
| "obj_keys v = {}"

section \<open>Array reduce with index\<close>

text \<open>\<open>xs.reduce((acc, x, index) => ..., init)\<close>.\<close>

fun reduce_from :: "('a \<Rightarrow> 'b \<Rightarrow> nat \<Rightarrow> 'a) \<Rightarrow> 'a \<Rightarrow> 'b list \<Rightarrow> nat \<Rightarrow> 'a" where
  "reduce_from f acc [] i = acc"
| "reduce_from f acc (x # xs) i = reduce_from f (f acc x i) xs (Suc i)"

definition reduce :: "('a \<Rightarrow> 'b \<Rightarrow> nat \<Rightarrow> 'a) \<Rightarrow> 'a \<Rightarrow> 'b list \<Rightarrow> 'a" where
  "reduce f init xs = reduce_from f init xs 0"

text \<open>\<open>ranges[i]\<close> on a table of numbers: \<open>None\<close> is \<open>undefined\<close>.\<close>

definition bound_at :: "rat list \<Rightarrow> nat \<Rightarrow> rat option" where
  "bound_at ranges i = (if i < length ranges then Some (ranges ! i) else None)"

section \<open>Configuration\<close>

text \<open>
  The city configuration module and the constants module are not part of the sources at
  hand; they enter as parameters.  A city's configuration carries its currency and its
  boundary tables, which are lists of numbers.  \<open>cityConfig.get(country, city)\<close> may
  throw, may return \<open>undefined\<close> (\<open>None\<close>) or returns a configuration.
\<close>

record cityconf =
  currency :: jsval
  entranceFeeRanges :: "rat list"
  priceClassRanges_coke :: "rat list"
  priceClassRanges_beer :: "rat list"

type_synonym cityconfig_get = "jsval \<Rightarrow> jsval \<Rightarrow> error + cityconf option"

text \<open>
  Modelled from the spec: the boundary tables themselves (the capacity constant and the
  tables of a city's configuration) are not among the sources.  The specification has
  every boundary list strictly ascending, and the boundaries are capacities, fees and
  prices, which are not negative.
\<close>

definition valid_ranges :: "rat list \<Rightarrow> bool" where
  "valid_ranges b = (sorted_wrt (<) b \<and> list_all (\<lambda>x. 0 \<le> x) b)"

section \<open>Range bucketing\<close>

text \<open>
  The callback of \<open>getEntranceFeeRange\<close> and \<open>getCapacityRange\<close> (the two bodies are the
  same, over different tables and values).  \<open>rd\<close> is the read of the venue's value
  (\<open>venue.capacity\<close>, \<open>venue.fees.entrance\<close>), which the callback evaluates only when it
  reaches the comparison; an exception there ends the reduce.  \<open>!upperBound\<close> holds for
  \<open>undefined\<close> and for \<open>0\<close>.  A step that matches nothing returns \<open>undefined\<close>.
\<close>

definition range_step ::
  "rat list \<Rightarrow> error + jsval \<Rightarrow> error + jsval \<Rightarrow> rat \<Rightarrow> nat \<Rightarrow> error + jsval" where
  "range_step ranges rd acc lowerBound index =
     (case acc of
        Inl e \<Rightarrow> Inl e
      | Inr rng \<Rightarrow>
          if truthy rng then Inr rng
          else (case bound_at ranges (index + 1) of
                  None \<Rightarrow> Inr (Num lowerBound)
                | Some upperBound \<Rightarrow>
                    if upperBound = 0 then Inr (Num lowerBound)
                    else bind_err rd (\<lambda>v.
                         bind_err (js_between v lowerBound upperBound) (\<lambda>inside.
                           if inside then Inr (Arr [Num lowerBound, Num upperBound])
                           else Inr Undefined))))"

definition range_bucket :: "rat list \<Rightarrow> error + jsval \<Rightarrow> error + jsval" where
  "range_bucket ranges rd = reduce (range_step ranges rd) (Inr Null) ranges"

text \<open>\<open>getEntranceFeeRange(venue, cityConf)\<close>: the table is read off \<open>cityConf\<close> first.\<close>

definition getEntranceFeeRange :: "jsval \<Rightarrow> cityconf option \<Rightarrow> error + jsval" where
  "getEntranceFeeRange venue cityConf =
     (case cityConf of
        None \<Rightarrow> Inl TypeError
      | Some c \<Rightarrow>
          range_bucket (entranceFeeRanges c)
            (bind_err (get_prop venue ''fees'') (\<lambda>fees. get_prop fees ''entrance'')))"

text \<open>\<open>getCapacityRange(venue)\<close> over the constant \<open>VENUE_CAPACITY_RANGES\<close>.\<close>

definition getCapacityRange :: "rat list \<Rightarrow> jsval \<Rightarrow> error + jsval" where
  "getCapacityRange VENUE_CAPACITY_RANGES venue =
     range_bucket VENUE_CAPACITY_RANGES (get_prop venue ''capacity'')"

section \<open>Price class\<close>

text \<open>
  The callback of \<open>getClassForRanges\<close>: the 1-based index of the matching interval.  The
  comparison converts the price and may throw, which ends the reduce.
\<close>

definition class_step ::
  "rat list \<Rightarrow> jsval \<Rightarrow> error + jsval \<Rightarrow> rat \<Rightarrow> nat \<Rightarrow> error + jsval" where
  "class_step ranges price acc lowerBound index =
     (case acc of
        Inl e \<Rightarrow> Inl e
      | Inr rng \<Rightarrow>
          if truthy rng then Inr rng
          else (case bound_at ranges (index + 1) of
                  None \<Rightarrow> Inr (Num (of_nat (index + 1)))
                | Some upperBound \<Rightarrow>
                    if upperBound = 0 then Inr (Num (of_nat (index + 1)))
                    else bind_err (js_between price lowerBound upperBound) (\<lambda>inside.
                           if inside then Inr (Num (of_nat (index + 1)))
                           else Inr Undefined)))"

definition getClassForRanges :: "rat list \<Rightarrow> jsval \<Rightarrow> error + jsval" where
  "getClassForRanges ranges price = reduce (class_step ranges price) (Inr Null) ranges"

definition getPriceClass :: "jsval \<Rightarrow> cityconf option \<Rightarrow> error + jsval" where
  "getPriceClass venue cityConf =
     bind_err (get_prop venue ''prices'') (\<lambda>prices.
     bind_err (get_prop prices ''coke'') (\<lambda>coke.
     bind_err (get_prop prices ''beer'') (\<lambda>beer.
       if \<not> truthy coke \<and> \<not> truthy beer then Inr Null
       else (case cityConf of
               None \<Rightarrow> Inl TypeError
             | Some c \<Rightarrow>
                 bind_err (getClassForRanges (priceClassRanges_coke c) coke) (\<lambda>cokeClass.
                 bind_err (getClassForRanges (priceClassRanges_beer c) beer) (\<lambda>beerClass.
                   math_max cokeClass beerClass))))))"

section \<open>Text normalisation\<close>

text \<open>
  \<open>unidecode\<close> is a library: it replaces every character outside the ASCII range by its
  transliteration and leaves every ASCII character as it is.  The transliteration table
  is a parameter.  A string here is a list of bytes.  The library calls \<open>str.replace\<close>,
  which throws on anything that is not a string.
\<close>

fun unidecode :: "(char \<Rightarrow> string) \<Rightarrow> jsval \<Rightarrow> error + jsval" where
  "unidecode tbl (Str s) =
     Inr (Str (concat (map (\<lambda>c. if (of_char c :: nat) < 128 then [c] else tbl c) s)))"
| "unidecode tbl v = Inl TypeError"

section \<open>Serialization\<close>

text \<open>
  \<open>serialize(data)\<close> changes \<open>data\<close> itself and returns it.  The steps below are its
  blocks in order, each a function of the state of \<open>data\<close>.
\<close>

definition serialize_id :: "jsval \<Rightarrow> error + jsval" where
  "serialize_id data =
     bind_err (get_prop data ''id'') (\<lambda>i.
       if truthy i then Inr (delete_prop (set_prop data ''_id'' i) ''id'') else Inr data)"

definition serialize_cityConf :: "cityconfig_get \<Rightarrow> jsval \<Rightarrow> error + cityconf option" where
  "serialize_cityConf cityConfig_get data =
     bind_err (get_prop data ''location'') (\<lambda>location.
       if \<not> truthy location then Inr None
       else bind_err (get_prop location ''country'') (\<lambda>country.
            bind_err (get_prop location ''city'') (\<lambda>city.
              if truthy country \<and> truthy city then cityConfig_get country city
              else Inr None)))"

definition serialize_priceClass :: "cityconf option \<Rightarrow> jsval \<Rightarrow> error + jsval" where
  "serialize_priceClass cityConf data =
     bind_err (get_prop data ''prices'') (\<lambda>prices.
       if truthy prices \<and> cityConf \<noteq> None
       then bind_err (getPriceClass data cityConf) (\<lambda>pc. Inr (set_prop data ''priceClass'' pc))
       else Inr data)"

definition serialize_coordinates :: "jsval \<Rightarrow> error + jsval" where
  "serialize_coordinates data =
     bind_err (get_prop data ''location'') (\<lambda>location.
       if \<not> truthy location then Inr data
       else bind_err (get_prop location ''coordinates'') (\<lambda>coordinates.
         if \<not> truthy coordinates then Inr data
         else bind_err (get_prop coordinates ''longitude'') (\<lambda>longitude.
              bind_err (get_prop coordinates ''latitude'') (\<lambda>latitude.
                Inr (set_prop data ''location''
                      (set_prop location ''coordinates''
                        (Obj [(''type'', Str ''Point''),
                              (''coordinates'', Arr [longitude, latitude])])))))))"

definition serialize_queryText :: "(char \<Rightarrow> string) \<Rightarrow> jsval \<Rightarrow> error + jsval" where
  "serialize_queryText tbl data =
     bind_err (get_prop data ''queryText'') (\<lambda>q.
       if \<not> truthy q
       then bind_err (get_prop data ''name'') (\<lambda>name.
            bind_err (unidecode tbl name) (\<lambda>t. Inr (set_prop data ''queryText'' t)))
       else Inr data)"

text \<open>
  The result is the state of \<open>data\<close> when the call ends and the exception, if one was
  thrown; without an exception the returned value is that same object.
\<close>

definition serialize :: "cityconfig_get \<Rightarrow> (char \<Rightarrow> string) \<Rightarrow> jsval \<Rightarrow> jsval \<times> error option" where
  "serialize cityConfig_get tbl data =
     (case serialize_id data of
        Inl e \<Rightarrow> (data, Some e)
      | Inr d1 \<Rightarrow>
     (case serialize_cityConf cityConfig_get d1 of
        Inl e \<Rightarrow> (d1, Some e)
      | Inr cityConf \<Rightarrow>
     (case serialize_priceClass cityConf d1 of
        Inl e \<Rightarrow> (d1, Some e)
      | Inr d2 \<Rightarrow>
     (case serialize_coordinates d2 of
        Inl e \<Rightarrow> (d2, Some e)
      | Inr d3 \<Rightarrow>
     (case serialize_queryText tbl d3 of
        Inl e \<Rightarrow> (d3, Some e)
      | Inr d4 \<Rightarrow> (d4, None))))))"

section \<open>Deserialization\<close>

text \<open>
  What \<open>deserialize\<close> is handed: a plain structure, or a live document of the store
  driver, whose \<open>toObject()\<close> gives its plain structure.  A plain structure has no
  methods, so a truthy \<open>toObject\<close> property on one cannot be called.  \<open>_.cloneDeep\<close> of a
  value is the same value.
\<close>

datatype handle = Plain jsval | Document jsval

fun snapshot :: "handle \<Rightarrow> error + jsval" where
  "snapshot (Document v) = Inr v"
| "snapshot (Plain v) =
     bind_err (get_prop v ''toObject'') (\<lambda>t. if truthy t then Inl TypeError else Inr v)"

text \<open>The structure a handle stands for.\<close>

fun contents :: "handle \<Rightarrow> jsval" where
  "contents (Plain v) = v"
| "contents (Document v) = v"

definition deserializeImage :: "jsval \<Rightarrow> error + jsval" where
  "deserializeImage venueImage =
     bind_err (snapshot (Plain venueImage)) (\<lambda>img.
     bind_err (get_prop img ''_id'') (\<lambda>i.
       Inr (delete_prop (set_prop img ''id'' i) ''_id'')))"

definition deserialize_id :: "jsval \<Rightarrow> error + jsval" where
  "deserialize_id venue =
     bind_err (get_prop venue ''_id'') (\<lambda>i.
       Inr (delete_prop (delete_prop (delete_prop (set_prop venue ''id'' i) ''_id'')
              ''sourceId'') ''queryText''))"

definition deserialize_images :: "jsval \<Rightarrow> error + jsval" where
  "deserialize_images venue =
     bind_err (get_prop venue ''images'') (\<lambda>images.
       if truthy images
       then (case images of
               Arr xs \<Rightarrow> bind_err (map_err deserializeImage xs)
                           (\<lambda>ys. Inr (set_prop venue ''images'' (Arr ys)))
             | _ \<Rightarrow> Inl TypeError)
       else Inr venue)"

definition deserialize_coordinates :: "jsval \<Rightarrow> error + jsval" where
  "deserialize_coordinates venue =
     bind_err (get_prop venue ''location'') (\<lambda>location.
     bind_err (get_prop location ''coordinates'') (\<lambda>coordinates.
       if truthy coordinates
       then bind_err (get_prop coordinates ''coordinates'') (\<lambda>pair.
            bind_err (get_index pair 0) (\<lambda>longitude.
            bind_err (get_index pair 1) (\<lambda>latitude.
              Inr (set_prop venue ''location''
                    (set_prop location ''coordinates''
                      (Obj [(''longitude'', longitude), (''latitude'', latitude)]))))))
       else Inr venue))"

definition deserialize_cityConf :: "cityconfig_get \<Rightarrow> jsval \<Rightarrow> error + cityconf option" where
  "deserialize_cityConf cityConfig_get venue =
     bind_err (get_prop venue ''location'') (\<lambda>location.
     bind_err (get_prop location ''country'') (\<lambda>country.
     bind_err (get_prop location ''city'') (\<lambda>city.
       cityConfig_get country city)))"

definition deserialize_capacity :: "rat list \<Rightarrow> jsval \<Rightarrow> error + jsval" where
  "deserialize_capacity VENUE_CAPACITY_RANGES venue =
     bind_err (get_prop venue ''capacity'') (\<lambda>capacity.
       if truthy capacity
       then bind_err (getCapacityRange VENUE_CAPACITY_RANGES venue)
              (\<lambda>r. Inr (set_prop venue ''capacityRange'' r))
       else Inr venue)"

definition deserialize_fees :: "cityconf option \<Rightarrow> jsval \<Rightarrow> error + jsval" where
  "deserialize_fees cityConf venue =
     bind_err (get_prop venue ''fees'') (\<lambda>fees.
       if truthy fees
       then (case cityConf of
               None \<Rightarrow> Inl TypeError
             | Some c \<Rightarrow>
                 let venue1 = set_prop venue ''currency'' (currency c)
                 in bind_err (get_prop fees ''entrance'') (\<lambda>entrance.
                      if truthy entrance
                      then bind_err (getEntranceFeeRange venue1 cityConf)
                             (\<lambda>r. Inr (set_prop venue1 ''entranceFeeRange'' r))
                      else Inr venue1))
       else Inr venue)"

text \<open>\<open>deserialize(venue)\<close>: the snapshot, then the blocks in order on the copy.\<close>

definition deserialize :: "cityconfig_get \<Rightarrow> rat list \<Rightarrow> handle \<Rightarrow> error + jsval" where
  "deserialize cityConfig_get VENUE_CAPACITY_RANGES h =
     bind_err (snapshot h) (\<lambda>v0.
     bind_err (deserialize_id v0) (\<lambda>v1.
     bind_err (deserialize_images v1) (\<lambda>v2.
     bind_err (deserialize_coordinates v2) (\<lambda>v3.
     bind_err (deserialize_cityConf cityConfig_get v3) (\<lambda>cityConf.
     bind_err (deserialize_capacity VENUE_CAPACITY_RANGES v3) (\<lambda>v4.
       deserialize_fees cityConf v4))))))"

section \<open>Objects by reference\<close>

text \<open>
  Objects and arrays are passed by reference: to say which of the caller's objects a call
  changes, the two functions are also given over a store.  A value is a primitive or a
  reference to a cell of the store; a cell is an object, an array or a live document of
  the store driver (an object that has the \<open>toObject\<close> method).  An address is an index
  into the store, and allocation appends a cell.
\<close>

datatype hval =
    HUndefined
  | HNull
  | HBool bool
  | HNum rat
  | HNaN
  | HPosInf
  | HNegInf
  | HStr string
  | Ref nat

datatype cell =
    HObj "(string \<times> hval) list"
  | HArr "hval list"
  | HDoc "(string \<times> hval) list"

type_synonym heap = "cell list"

text \<open>A primitive as a value of the structures above.\<close>

fun prim :: "hval \<Rightarrow> jsval" where
  "prim HUndefined = Undefined"
| "prim HNull = Null"
| "prim (HBool b) = Bool b"
| "prim (HNum r) = Num r"
| "prim HNaN = NaN"
| "prim HPosInf = PosInf"
| "prim HNegInf = NegInf"
| "prim (HStr s) = Str s"
| "prim (Ref a) = Undefined"

fun htruthy :: "hval \<Rightarrow> bool" where
  "htruthy (Ref a) = True"
| "htruthy v = truthy (prim v)"

text \<open>
  The named properties of a cell.  An array carries none of the keys this module reads,
  and a named property written to an array is not represented: the module does that only
  to a copy, on its way to a \<open>TypeError\<close>.
\<close>

fun fields :: "cell \<Rightarrow> (string \<times> hval) list" where
  "fields (HObj fs) = fs"
| "fields (HDoc fs) = fs"
| "fields (HArr xs) = []"

fun with_fields :: "cell \<Rightarrow> (string \<times> hval) list \<Rightarrow> cell" where
  "with_fields (HObj _) fs = HObj fs"
| "with_fields (HDoc _) fs = HDoc fs"
| "with_fields (HArr xs) fs = HArr xs"

text \<open>
  The structure reachable from a value, read as a tree down to a given depth; \<open>read\<close>
  goes as deep as the store has cells, which reads every structure without a cycle in
  full.  It is used where an operation consumes a whole value: a conversion to a number,
  the text normalisation, the arguments of the lookup.
\<close>

fun read_depth :: "heap \<Rightarrow> nat \<Rightarrow> hval \<Rightarrow> jsval" where
  "read_depth H 0 (Ref a) = Undefined"
| "read_depth H (Suc n) (Ref a) =
     (if a < length H
      then (case H ! a of
              HObj fs \<Rightarrow> Obj (map (\<lambda>kv. (fst kv, read_depth H n (snd kv))) fs)
            | HDoc fs \<Rightarrow> Obj (map (\<lambda>kv. (fst kv, read_depth H n (snd kv))) fs)
            | HArr xs \<Rightarrow> Arr (map (read_depth H n) xs))
      else Undefined)"
| "read_depth H n v = prim v"

definition read :: "heap \<Rightarrow> hval \<Rightarrow> jsval" where
  "read H v = read_depth H (length H) v"

text \<open>Property read, index read, property write, delete, allocation.\<close>

fun hget :: "heap \<Rightarrow> hval \<Rightarrow> string \<Rightarrow> error + hval" where
  "hget H HUndefined k = Inl TypeError"
| "hget H HNull k = Inl TypeError"
| "hget H (Ref a) k =
     (if a < length H
      then Inr (case map_of (fields (H ! a)) k of None \<Rightarrow> HUndefined | Some x \<Rightarrow> x)
      else Inl TypeError)"
| "hget H v k = Inr HUndefined"

fun hindex :: "heap \<Rightarrow> hval \<Rightarrow> nat \<Rightarrow> error + hval" where
  "hindex H HUndefined i = Inl TypeError"
| "hindex H HNull i = Inl TypeError"
| "hindex H (HStr s) i = Inr (if i < length s then HStr [s ! i] else HUndefined)"
| "hindex H (Ref a) i =
     (if a < length H
      then (case H ! a of
              HArr xs \<Rightarrow> Inr (if i < length xs then xs ! i else HUndefined)
            | c \<Rightarrow> Inr (case map_of (fields c) (index_key i) of
                         None \<Rightarrow> HUndefined | Some x \<Rightarrow> x))
      else Inl TypeError)"
| "hindex H v i = Inr HUndefined"

fun hset :: "heap \<Rightarrow> hval \<Rightarrow> string \<Rightarrow> hval \<Rightarrow> heap" where
  "hset H (Ref a) k x =
     (if a < length H
      then H[a := with_fields (H ! a) (AList.update k x (fields (H ! a)))]
      else H)"
| "hset H v k x = H"

fun hdelete :: "heap \<Rightarrow> hval \<Rightarrow> string \<Rightarrow> heap" where
  "hdelete H (Ref a) k =
     (if a < length H
      then H[a := with_fields (H ! a) (AList.delete k (fields (H ! a)))]
      else H)"
| "hdelete H v k = H"

definition alloc :: "heap \<Rightarrow> cell \<Rightarrow> heap \<times> hval" where
  "alloc H c = (H @ [c], Ref (length H))"

text \<open>A computed value enters the store: its arrays and objects are new cells.\<close>

fun inject :: "heap \<Rightarrow> jsval \<Rightarrow> heap \<times> hval"
  and inject_list :: "heap \<Rightarrow> jsval list \<Rightarrow> heap \<times> hval list"
  and inject_fields :: "heap \<Rightarrow> (string \<times> jsval) list \<Rightarrow> heap \<times> (string \<times> hval) list" where
  "inject H Undefined = (H, HUndefined)"
| "inject H Null = (H, HNull)"
| "inject H (Bool b) = (H, HBool b)"
| "inject H (Num r) = (H, HNum r)"
| "inject H NaN = (H, HNaN)"
| "inject H PosInf = (H, HPosInf)"
| "inject H NegInf = (H, HNegInf)"
| "inject H (Str s) = (H, HStr s)"
| "inject H (Arr xs) = (case inject_list H xs of (H1, vs) \<Rightarrow> alloc H1 (HArr vs))"
| "inject H (Obj kvs) = (case inject_fields H kvs of (H1, fs) \<Rightarrow> alloc H1 (HObj fs))"
| "inject_list H [] = (H, [])"
| "inject_list H (x # xs) =
     (case inject H x of (H1, v) \<Rightarrow>
        (case inject_list H1 xs of (H2, vs) \<Rightarrow> (H2, v # vs)))"
| "inject_fields H [] = (H, [])"
| "inject_fields H (kv # kvs) =
     (case inject H (snd kv) of (H1, v) \<Rightarrow>
        (case inject_fields H1 kvs of (H2, fs) \<Rightarrow> (H2, (fst kv, v) # fs)))"


text \<open>
  A step over the store gives the store it leaves and a value or an exception; after an
  exception the store is as the step left it.
\<close>

definition hbind ::
  "heap \<times> (error + 'a) \<Rightarrow> (heap \<Rightarrow> 'a \<Rightarrow> heap \<times> (error + 'b)) \<Rightarrow> heap \<times> (error + 'b)" where
  "hbind m f = (case m of (H, Inl e) \<Rightarrow> (H, Inl e) | (H, Inr x) \<Rightarrow> f H x)"

text \<open>
  \<open>_.cloneDeep\<close> and the driver's \<open>toObject\<close> are libraries and enter as parameters: a
  copier takes the store and a value and gives the store with the copy in it and the copy.
\<close>

type_synonym copier = "heap \<Rightarrow> hval \<Rightarrow> heap \<times> hval"

definition is_live :: "heap \<Rightarrow> hval \<Rightarrow> bool" where
  "is_live H v =
     (case v of
        Ref a \<Rightarrow> a < length H \<and> (case H ! a of HDoc fs \<Rightarrow> True | _ \<Rightarrow> False)
      | _ \<Rightarrow> False)"

definition array_length :: "heap \<Rightarrow> hval \<Rightarrow> nat option" where
  "array_length H v =
     (case v of
        Ref a \<Rightarrow> if a < length H
                 then (case H ! a of HArr xs \<Rightarrow> Some (length xs) | _ \<Rightarrow> None)
                 else None
      | _ \<Rightarrow> None)"

subsection \<open>Deserialization over the store\<close>

definition snapshot_h :: "copier \<Rightarrow> copier \<Rightarrow> heap \<Rightarrow> hval \<Rightarrow> heap \<times> (error + hval)" where
  "snapshot_h cloneDeep toObject H venue =
     (case hget H venue ''toObject'' of
        Inl e \<Rightarrow> (H, Inl e)
      | Inr t \<Rightarrow>
          if is_live H venue then (case toObject H venue of (H1, v) \<Rightarrow> (H1, Inr v))
          else if htruthy t then (H, Inl TypeError)
          else (case cloneDeep H venue of (H1, v) \<Rightarrow> (H1, Inr v)))"

definition deserializeImage_h ::
  "copier \<Rightarrow> copier \<Rightarrow> heap \<Rightarrow> hval \<Rightarrow> heap \<times> (error + hval)" where
  "deserializeImage_h cloneDeep toObject H venueImage =
     hbind (snapshot_h cloneDeep toObject H venueImage) (\<lambda>H1 img.
       (case hget H1 img ''_id'' of
          Inl e \<Rightarrow> (H1, Inl e)
        | Inr i \<Rightarrow> (hdelete (hset H1 img ''id'' i) img ''_id'', Inr img)))"

text \<open>
  \<open>array.map(f)\<close>: the length is taken at the start, each element is read when its turn
  comes, the results are a new array.
\<close>

fun map_from ::
  "(heap \<Rightarrow> hval \<Rightarrow> heap \<times> (error + hval)) \<Rightarrow> heap \<Rightarrow> hval \<Rightarrow> nat \<Rightarrow> nat
     \<Rightarrow> heap \<times> (error + hval list)" where
  "map_from f H arr i 0 = (H, Inr [])"
| "map_from f H arr i (Suc n) =
     (case hindex H arr i of
        Inl e \<Rightarrow> (H, Inl e)
      | Inr x \<Rightarrow>
          hbind (f H x) (\<lambda>H1 y.
          hbind (map_from f H1 arr (Suc i) n) (\<lambda>H2 ys. (H2, Inr (y # ys)))))"

definition deserialize_id_h :: "heap \<Rightarrow> hval \<Rightarrow> heap \<times> (error + unit)" where
  "deserialize_id_h H venue =
     (case hget H venue ''_id'' of
        Inl e \<Rightarrow> (H, Inl e)
      | Inr i \<Rightarrow>
          (hdelete (hdelete (hdelete (hset H venue ''id'' i) venue ''_id'') venue ''sourceId'')
             venue ''queryText'', Inr ()))"

definition deserialize_images_h ::
  "copier \<Rightarrow> copier \<Rightarrow> heap \<Rightarrow> hval \<Rightarrow> heap \<times> (error + unit)" where
  "deserialize_images_h cloneDeep toObject H venue =
     (case hget H venue ''images'' of
        Inl e \<Rightarrow> (H, Inl e)
      | Inr images \<Rightarrow>
          if htruthy images
          then (case array_length H images of
                  None \<Rightarrow> (H, Inl TypeError)
                | Some n \<Rightarrow>
                    hbind (map_from (deserializeImage_h cloneDeep toObject) H images 0 n)
                      (\<lambda>H1 ys. case alloc H1 (HArr ys) of
                                  (H2, arr) \<Rightarrow> (hset H2 venue ''images'' arr, Inr ())))
          else (H, Inr ()))"

definition deserialize_coordinates_h :: "heap \<Rightarrow> hval \<Rightarrow> heap \<times> (error + unit)" where
  "deserialize_coordinates_h H venue =
     (case bind_err (hget H venue ''location'') (\<lambda>location.
           bind_err (hget H location ''coordinates'') (\<lambda>coordinates.
             if htruthy coordinates
             then bind_err (hget H coordinates ''coordinates'') (\<lambda>pair.
                  bind_err (hindex H pair 0) (\<lambda>longitude.
                  bind_err (hindex H pair 1) (\<lambda>latitude.
                    Inr (Some (location, longitude, latitude)))))
             else Inr None)) of
        Inl e \<Rightarrow> (H, Inl e)
      | Inr None \<Rightarrow> (H, Inr ())
      | Inr (Some (location, longitude, latitude)) \<Rightarrow>
          (case alloc H (HObj [(''longitude'', longitude), (''latitude'', latitude)]) of
             (H1, point) \<Rightarrow> (hset H1 location ''coordinates'' point, Inr ())))"

definition deserialize_cityConf_h ::
  "cityconfig_get \<Rightarrow> heap \<Rightarrow> hval \<Rightarrow> error + cityconf option" where
  "deserialize_cityConf_h cityConfig_get H venue =
     bind_err (hget H venue ''location'') (\<lambda>location.
     bind_err (hget H location ''country'') (\<lambda>country.
     bind_err (hget H location ''city'') (\<lambda>city.
       cityConfig_get (read H country) (read H city))))"

definition getCapacityRange_h :: "rat list \<Rightarrow> heap \<Rightarrow> hval \<Rightarrow> error + jsval" where
  "getCapacityRange_h VENUE_CAPACITY_RANGES H venue =
     range_bucket VENUE_CAPACITY_RANGES
       (bind_err (hget H venue ''capacity'') (\<lambda>capacity. Inr (read H capacity)))"

definition getEntranceFeeRange_h :: "heap \<Rightarrow> hval \<Rightarrow> cityconf option \<Rightarrow> error + jsval" where
  "getEntranceFeeRange_h H venue cityConf =
     (case cityConf of
        None \<Rightarrow> Inl TypeError
      | Some c \<Rightarrow>
          range_bucket (entranceFeeRanges c)
            (bind_err (hget H venue ''fees'') (\<lambda>fees.
             bind_err (hget H fees ''entrance'') (\<lambda>entrance. Inr (read H entrance)))))"

definition deserialize_capacity_h :: "rat list \<Rightarrow> heap \<Rightarrow> hval \<Rightarrow> heap \<times> (error + unit)" where
  "deserialize_capacity_h VENUE_CAPACITY_RANGES H venue =
     (case hget H venue ''capacity'' of
        Inl e \<Rightarrow> (H, Inl e)
      | Inr capacity \<Rightarrow>
          if htruthy capacity
          then (case getCapacityRange_h VENUE_CAPACITY_RANGES H venue of
                  Inl e \<Rightarrow> (H, Inl e)
                | Inr r \<Rightarrow> (case inject H r of
                             (H1, v) \<Rightarrow> (hset H1 venue ''capacityRange'' v, Inr ())))
          else (H, Inr ()))"

definition deserialize_fees_h ::
  "cityconf option \<Rightarrow> heap \<Rightarrow> hval \<Rightarrow> heap \<times> (error + unit)" where
  "deserialize_fees_h cityConf H venue =
     (case hget H venue ''fees'' of
        Inl e \<Rightarrow> (H, Inl e)
      | Inr fees \<Rightarrow>
          if htruthy fees
          then (case cityConf of
                  None \<Rightarrow> (H, Inl TypeError)
                | Some c \<Rightarrow>
                    (case inject H (currency c) of
                       (H1, cur) \<Rightarrow>
                         let H2 = hset H1 venue ''currency'' cur
                         in (case bind_err (hget H2 venue ''fees'')
                                     (\<lambda>fees2. hget H2 fees2 ''entrance'') of
                               Inl e \<Rightarrow> (H2, Inl e)
                             | Inr entrance \<Rightarrow>
                                 if htruthy entrance
                                 then (case getEntranceFeeRange_h H2 venue cityConf of
                                         Inl e \<Rightarrow> (H2, Inl e)
                                       | Inr r \<Rightarrow>
                                           (case inject H2 r of
                                              (H3, v) \<Rightarrow>
                                                (hset H3 venue ''entranceFeeRange'' v, Inr ())))
                                 else (H2, Inr ()))))
          else (H, Inr ()))"

definition deserialize_h ::
  "copier \<Rightarrow> copier \<Rightarrow> cityconfig_get \<Rightarrow> rat list \<Rightarrow> heap \<Rightarrow> hval \<Rightarrow> heap \<times> (error + hval)" where
  "deserialize_h cloneDeep toObject cityConfig_get VENUE_CAPACITY_RANGES H venue0 =
     hbind (snapshot_h cloneDeep toObject H venue0) (\<lambda>H1 venue.
     hbind (deserialize_id_h H1 venue) (\<lambda>H2 _.
     hbind (deserialize_images_h cloneDeep toObject H2 venue) (\<lambda>H3 _.
     hbind (deserialize_coordinates_h H3 venue) (\<lambda>H4 _.
     hbind (H4, deserialize_cityConf_h cityConfig_get H4 venue) (\<lambda>H5 cityConf.
     hbind (deserialize_capacity_h VENUE_CAPACITY_RANGES H5 venue) (\<lambda>H6 _.
     hbind (deserialize_fees_h cityConf H6 venue) (\<lambda>H7 _. (H7, Inr venue))))))))"

subsection \<open>Serialization over the store\<close>

definition serialize_id_h :: "heap \<Rightarrow> hval \<Rightarrow> heap \<times> (error + unit)" where
  "serialize_id_h H data =
     (case hget H data ''id'' of
        Inl e \<Rightarrow> (H, Inl e)
      | Inr i \<Rightarrow>
          if htruthy i then (hdelete (hset H data ''_id'' i) data ''id'', Inr ())
          else (H, Inr ()))"

definition serialize_cityConf_h ::
  "cityconfig_get \<Rightarrow> heap \<Rightarrow> hval \<Rightarrow> error + cityconf option" where
  "serialize_cityConf_h cityConfig_get H data =
     bind_err (hget H data ''location'') (\<lambda>location.
       if \<not> htruthy location then Inr None
       else bind_err (hget H location ''country'') (\<lambda>country.
            bind_err (hget H location ''city'') (\<lambda>city.
              if htruthy country \<and> htruthy city
              then cityConfig_get (read H country) (read H city)
              else Inr None)))"

definition getPriceClass_h :: "heap \<Rightarrow> hval \<Rightarrow> cityconf option \<Rightarrow> error + jsval" where
  "getPriceClass_h H venue cityConf =
     bind_err (hget H venue ''prices'') (\<lambda>prices.
     bind_err (hget H prices ''coke'') (\<lambda>coke.
     bind_err (hget H prices ''beer'') (\<lambda>beer.
       if \<not> htruthy coke \<and> \<not> htruthy beer then Inr Null
       else (case cityConf of
               None \<Rightarrow> Inl TypeError
             | Some c \<Rightarrow>
                 bind_err (getClassForRanges (priceClassRanges_coke c) (read H coke))
                   (\<lambda>cokeClass.
                 bind_err (getClassForRanges (priceClassRanges_beer c) (read H beer))
                   (\<lambda>beerClass. math_max cokeClass beerClass))))))"

definition serialize_priceClass_h ::
  "cityconf option \<Rightarrow> heap \<Rightarrow> hval \<Rightarrow> heap \<times> (error + unit)" where
  "serialize_priceClass_h cityConf H data =
     (case hget H data ''prices'' of
        Inl e \<Rightarrow> (H, Inl e)
      | Inr prices \<Rightarrow>
          if htruthy prices \<and> cityConf \<noteq> None
          then (case getPriceClass_h H data cityConf of
                  Inl e \<Rightarrow> (H, Inl e)
                | Inr pc \<Rightarrow> (case inject H pc of
                              (H1, v) \<Rightarrow> (hset H1 data ''priceClass'' v, Inr ())))
          else (H, Inr ()))"

definition serialize_coordinates_h :: "heap \<Rightarrow> hval \<Rightarrow> heap \<times> (error + unit)" where
  "serialize_coordinates_h H data =
     (case bind_err (hget H data ''location'') (\<lambda>location.
             if \<not> htruthy location then Inr None
             else bind_err (hget H location ''coordinates'') (\<lambda>coordinates.
               if \<not> htruthy coordinates then Inr None
               else bind_err (hget H coordinates ''longitude'') (\<lambda>longitude.
                    bind_err (hget H coordinates ''latitude'') (\<lambda>latitude.
                      Inr (Some (location, longitude, latitude)))))) of
        Inl e \<Rightarrow> (H, Inl e)
      | Inr None \<Rightarrow> (H, Inr ())
      | Inr (Some (location, longitude, latitude)) \<Rightarrow>
          (case alloc H (HArr [longitude, latitude]) of
             (H1, pair) \<Rightarrow>
               (case alloc H1 (HObj [(''type'', HStr ''Point''), (''coordinates'', pair)]) of
                  (H2, point) \<Rightarrow> (hset H2 location ''coordinates'' point, Inr ()))))"

definition serialize_queryText_h ::
  "(char \<Rightarrow> string) \<Rightarrow> heap \<Rightarrow> hval \<Rightarrow> heap \<times> (error + unit)" where
  "serialize_queryText_h tbl H data =
     (case hget H data ''queryText'' of
        Inl e \<Rightarrow> (H, Inl e)
      | Inr q \<Rightarrow>
          if \<not> htruthy q
          then (case bind_err (hget H data ''name'') (\<lambda>name. unidecode tbl (read H name)) of
                  Inl e \<Rightarrow> (H, Inl e)
                | Inr t \<Rightarrow> (case inject H t of
                             (H1, v) \<Rightarrow> (hset H1 data ''queryText'' v, Inr ())))
          else (H, Inr ()))"

definition serialize_h ::
  "cityconfig_get \<Rightarrow> (char \<Rightarrow> string) \<Rightarrow> heap \<Rightarrow> hval \<Rightarrow> heap \<times> (error + hval)" where
  "serialize_h cityConfig_get tbl H data =
     hbind (serialize_id_h H data) (\<lambda>H1 _.
     hbind (H1, serialize_cityConf_h cityConfig_get H1 data) (\<lambda>H2 cityConf.
     hbind (serialize_priceClass_h cityConf H2 data) (\<lambda>H3 _.
     hbind (serialize_coordinates_h H3 data) (\<lambda>H4 _.
     hbind (serialize_queryText_h tbl H4 data) (\<lambda>H5 _. (H5, Inr data))))))"

subsection \<open>Independent copies\<close>

text \<open>
  What the two library copiers promise: the copy is made of new cells only, no cell that
  was there is changed, and nothing in the copy refers to a cell that was there.
\<close>

fun fresh :: "nat \<Rightarrow> hval \<Rightarrow> bool" where
  "fresh n (Ref a) = (n \<le> a)"
| "fresh n v = True"

fun cell_values :: "cell \<Rightarrow> hval list" where
  "cell_values (HObj fs) = map snd fs"
| "cell_values (HDoc fs) = map snd fs"
| "cell_values (HArr xs) = xs"

text \<open>
  \<open>kept H0 H\<close>: the store \<open>H\<close> still begins with the cells of \<open>H0\<close>, unchanged, and the
  cells after them refer to none of them.
\<close>

definition kept :: "heap \<Rightarrow> heap \<Rightarrow> bool" where
  "kept H0 H =
     (take (length H0) H = H0 \<and>
      list_all (\<lambda>c. list_all (fresh (length H0)) (cell_values c)) (drop (length H0) H))"

definition independent_copy :: "copier \<Rightarrow> bool" where
  "independent_copy f =
     (\<forall>H v. case f H v of (H', v') \<Rightarrow> kept H H' \<and> fresh (length H) v')"

text \<open>
  \<open>changed_only S H H'\<close>: the store \<open>H'\<close> has every cell of \<open>H\<close> whose address is not in
  \<open>S\<close> unchanged.
\<close>

definition changed_only :: "nat set \<Rightarrow> heap \<Rightarrow> heap \<Rightarrow> bool" where
  "changed_only S H H' =
     (length H \<le> length H' \<and> (\<forall>a. a < length H \<and> a \<notin> S \<longrightarrow> H' ! a = H ! a))"

text \<open>The address a value refers to, if any.\<close>

fun address :: "hval \<Rightarrow> nat set" where
  "address (Ref a) = {a}"
| "address v = {}"

text \<open>A copier: the structure is read and entered into the store again.\<close>

definition deep_copy :: copier where
  "deep_copy H v = inject H (read H v)"

subsection \<open>Sample stores\<close>

text \<open>
  A payload with an identifier, prices and a geo point whose location object a second
  venue refers to as well; and a stored document, a live one, with an image, a geo point,
  a capacity and fees.
\<close>

definition sample_store :: heap where
  "sample_store =
     [HObj [(''id'', HStr ''a1''), (''name'', HStr ''V''), (''location'', Ref 1),
            (''prices'', Ref 3)],
      HObj [(''country'', HStr ''DK''), (''city'', HStr ''Odense''), (''coordinates'', Ref 2)],
      HObj [(''longitude'', HNum 10), (''latitude'', HNum 55)],
      HObj [(''coke'', HNum (5 / 2)), (''beer'', HNum 6)],
      HObj [(''name'', HStr ''W''), (''location'', Ref 1)]]"

definition stored_store :: heap where
  "stored_store =
     [HDoc [(''_id'', HStr ''a1''), (''name'', HStr ''V''), (''sourceId'', HStr ''s1''),
            (''location'', Ref 1), (''images'', Ref 4), (''capacity'', HNum 75),
            (''fees'', Ref 6)],
      HObj [(''country'', HStr ''DK''), (''city'', HStr ''Odense''), (''coordinates'', Ref 2)],
      HObj [(''type'', HStr ''Point''), (''coordinates'', Ref 3)],
      HArr [HNum 10, HNum 55],
      HArr [Ref 5],
      HObj [(''_id'', HStr ''i1''), (''mime'', HStr ''image/png'')],
      HObj [(''entrance'', HNum 7)]]"

section \<open>The class index as the specification words it\<close>


section \<open>Unchanged fields\<close>

text \<open>
  A field \<open>k\<close> is the same in \<open>d\<close> and \<open>d'\<close> when it reads the same in both and is a key of
  both or of neither.
\<close>

definition same_field :: "string \<Rightarrow> jsval \<Rightarrow> jsval \<Rightarrow> bool" where
  "same_field k d d' = (get_prop d' k = get_prop d k \<and> (k \<in> obj_keys d') = (k \<in> obj_keys d))"

section \<open>A sample configuration\<close>

text \<open>
  A configuration, a lookup that resolves every city to it, a lookup that fails for every
  city and a transliteration table, for the concrete evaluations below.
\<close>

definition sample_conf :: cityconf where
  "sample_conf = \<lparr>currency = Str ''EUR'', entranceFeeRanges = [0, 5, 10],
     priceClassRanges_coke = [0, 2, 3, 5], priceClassRanges_beer = [0, 3, 5, 8]\<rparr>"

definition sample_get :: cityconfig_get where
  "sample_get country city = Inr (Some sample_conf)"

definition failing_get :: cityconfig_get where
  "failing_get country city = Inl ConfigError"

definition sample_tbl :: "char \<Rightarrow> string" where
  "sample_tbl c = ''?''"

section \<open>Properties of the range bucketer\<close>

lemma js_between_Num [simp]: "js_between (Num v) lo hi = Inr (lo < v \<and> v \<le> hi)"
  by (simp add: js_between_def js_gt_def js_le_def bind_err_def)

lemma js_between_Undefined [simp]: "js_between Undefined lo hi = Inr False"
  by (simp add: js_between_def js_gt_def js_le_def bind_err_def)

lemma reduce_from_truthy:
  "truthy acc \<Longrightarrow> reduce_from (range_step R rd) (Inr acc) xs i = Inr acc"
  by (induction xs arbitrary: i) (simp_all add: range_step_def)

lemma reduce_from_drop:
  "k < length R \<Longrightarrow>
   reduce_from f acc (drop k R) k = reduce_from f (f acc (R ! k) k) (drop (Suc k) R) (Suc k)"
  by (simp flip: Cons_nth_drop_Suc)

lemma range_step_skip:
  assumes "\<not> truthy acc" "Suc k < length R" "R ! Suc k \<noteq> 0"
    "js_between v (R ! k) (R ! Suc k) = Inr False"
  shows "range_step R (Inr v) (Inr acc) (R ! k) k = Inr Undefined"
  using assms by (simp add: range_step_def bound_at_def bind_err_def)

lemma range_step_hit:
  assumes "\<not> truthy acc" "Suc k < length R" "R ! Suc k \<noteq> 0"
    "js_between v (R ! k) (R ! Suc k) = Inr True"
  shows "range_step R (Inr v) (Inr acc) (R ! k) k = Inr (Arr [Num (R ! k), Num (R ! Suc k)])"
  using assms by (simp add: range_step_def bound_at_def bind_err_def)

lemma range_step_end:
  assumes "\<not> truthy acc" "Suc k = length R"
  shows "range_step R rd (Inr acc) (R ! k) k = Inr (Num (R ! k))"
  using assms by (simp add: range_step_def bound_at_def)

lemma reduce_from_skip:
  assumes "k \<le> i" "i < length R" "\<not> truthy acc"
    and "\<forall>j. k \<le> j \<and> j < i \<longrightarrow> R ! Suc j \<noteq> 0 \<and> js_between v (R ! j) (R ! Suc j) = Inr False"
  shows "\<exists>acc'. \<not> truthy acc' \<and>
     reduce_from (range_step R (Inr v)) (Inr acc) (drop k R) k
       = reduce_from (range_step R (Inr v)) (Inr acc') (drop i R) i"
  using assms
proof (induction "i - k" arbitrary: k acc)
  case 0
  then show ?case by auto
next
  case (Suc n)
  then have k: "k < i" "Suc k \<le> i" "n = i - Suc k" by auto
  have st: "range_step R (Inr v) (Inr acc) (R ! k) k = Inr Undefined"
    using Suc.prems k by (intro range_step_skip) auto
  have "\<exists>acc'. \<not> truthy acc' \<and>
     reduce_from (range_step R (Inr v)) (Inr Undefined) (drop (Suc k) R) (Suc k)
       = reduce_from (range_step R (Inr v)) (Inr acc') (drop i R) i"
    using Suc.prems k by (intro Suc.hyps(1)) auto
  moreover have "reduce_from (range_step R (Inr v)) (Inr acc) (drop k R) k
      = reduce_from (range_step R (Inr v)) (Inr Undefined) (drop (Suc k) R) (Suc k)"
  proof -
    have "k < length R" using k Suc.prems by simp
    from reduce_from_drop[OF this, of "range_step R (Inr v)" "Inr acc"] show ?thesis
      by (simp only: st)
  qed
  ultimately show ?case by simp
qed

lemma range_bucket_hit:
  assumes "Suc i < length R" "R ! Suc i \<noteq> 0" "js_between v (R ! i) (R ! Suc i) = Inr True"
    and "\<forall>j. j < i \<longrightarrow> R ! Suc j \<noteq> 0 \<and> js_between v (R ! j) (R ! Suc j) = Inr False"
  shows "range_bucket R (Inr v) = Inr (Arr [Num (R ! i), Num (R ! Suc i)])"
proof -
  have i: "i < length R" using assms(1) by simp
  obtain acc' where a: "\<not> truthy acc'"
    and e: "reduce_from (range_step R (Inr v)) (Inr Null) (drop 0 R) 0
              = reduce_from (range_step R (Inr v)) (Inr acc') (drop i R) i"
    using reduce_from_skip[of 0 i R Null v] i assms(4) by auto
  have "reduce_from (range_step R (Inr v)) (Inr acc') (drop i R) i
      = reduce_from (range_step R (Inr v)) (Inr (Arr [Num (R ! i), Num (R ! Suc i)]))
          (drop (Suc i) R) (Suc i)"
    using reduce_from_drop[OF i, of "range_step R (Inr v)" "Inr acc'"]
      range_step_hit[OF a assms(1-3)]
    by (simp only:)
  also have "\<dots> = Inr (Arr [Num (R ! i), Num (R ! Suc i)])"
    by (rule reduce_from_truthy) simp
  finally show ?thesis using e by (simp add: range_bucket_def reduce_def)
qed

lemma range_bucket_last:
  assumes "R \<noteq> []"
    and "\<forall>j. Suc j < length R \<longrightarrow> R ! Suc j \<noteq> 0 \<and> js_between v (R ! j) (R ! Suc j) = Inr False"
  shows "range_bucket R (Inr v) = Inr (Num (last R))"
proof -
  define i where "i = length R - 1"
  have i: "i < length R" "Suc i = length R" using assms(1) by (simp_all add: i_def)
  obtain acc' where a: "\<not> truthy acc'"
    and e: "reduce_from (range_step R (Inr v)) (Inr Null) (drop 0 R) 0
              = reduce_from (range_step R (Inr v)) (Inr acc') (drop i R) i"
    using reduce_from_skip[of 0 i R Null v] i assms(2) by auto
  have "reduce_from (range_step R (Inr v)) (Inr acc') (drop i R) i
      = reduce_from (range_step R (Inr v)) (Inr (Num (R ! i))) (drop (Suc i) R) (Suc i)"
    using reduce_from_drop[OF i(1), of "range_step R (Inr v)" "Inr acc'"]
      range_step_end[OF a i(2)]
    by (simp only:)
  also have "\<dots> = Inr (Num (R ! i))" using i by simp
  also have "R ! i = last R" using assms(1) by (simp add: i_def last_conv_nth)
  finally show ?thesis using e by (simp add: range_bucket_def reduce_def)
qed

lemma nth_Suc_in_tl: "Suc j < length b \<Longrightarrow> b ! Suc j \<in> set (tl b)"
  by (cases b) auto

lemma valid_ranges_tl: "valid_ranges b \<Longrightarrow> 0 \<notin> set (tl b)"
  by (cases b) (auto simp add: valid_ranges_def list_all_iff)

lemma valid_ranges_nth_mono: "valid_ranges b \<Longrightarrow> j < i \<Longrightarrow> i < length b \<Longrightarrow> b ! j < b ! i"
  by (simp add: valid_ranges_def sorted_wrt_nth_less)

lemma getCapacityRange_bucket:
  "get_prop venue ''capacity'' = Inr x \<Longrightarrow> getCapacityRange b venue = range_bucket b (Inr x)"
  by (simp add: getCapacityRange_def)

lemma getEntranceFeeRange_bucket:
  "get_prop venue ''fees'' = Inr fees \<Longrightarrow> get_prop fees ''entrance'' = Inr x \<Longrightarrow>
   getEntranceFeeRange venue (Some c) = range_bucket (entranceFeeRanges c) (Inr x)"
  by (simp add: getEntranceFeeRange_def bind_err_def)

text \<open>
  C1 (as stated, refuted).  The claim says that a value at or below the first boundary
  gives \<open>null\<close>, and that boundaries \<open>[0, 50, 100]\<close> with value \<open>0\<close> give \<open>null\<close>.  The
  reduce reaches the last boundary with nothing matched and returns that boundary: the
  result is \<open>100\<close>.
\<close>

theorem range_bucket_below_first_counterexample:
  "range_bucket [0, 50, 100] (Inr (Num 0)) = Inr (Num 100) \<and>
   range_bucket [0, 50, 100] (Inr (Num 0)) \<noteq> Inr Null \<and>
   getCapacityRange [0, 50, 100] (Obj [(''capacity'', Num 0)]) = Inr (Num 100)"
  by (simp add: getCapacityRange_def range_bucket_def reduce_def range_step_def bound_at_def
      bind_err_def)

text \<open>
  C1 (amended).  For every ascending boundary list \<open>b\<close> with at least one element, none of
  whose boundaries after the first is \<open>0\<close>, and every value \<open>v \<le> b[0]\<close>, the range
  bucketer returns the last boundary alone, both in \<open>getCapacityRange\<close> and in
  \<open>getEntranceFeeRange\<close>.
\<close>

theorem range_bucket_below_first:
  assumes "b \<noteq> []" "sorted b" "0 \<notin> set (tl b)" "v \<le> hd b"
    and "get_prop venue ''capacity'' = Inr (Num v)"
    and "get_prop venue ''fees'' = Inr fees" "get_prop fees ''entrance'' = Inr (Num v)"
    and "entranceFeeRanges c = b"
  shows "range_bucket b (Inr (Num v)) = Inr (Num (last b)) \<and>
         getCapacityRange b venue = Inr (Num (last b)) \<and>
         getEntranceFeeRange venue (Some c) = Inr (Num (last b))"
proof -
  have "range_bucket b (Inr (Num v)) = Inr (Num (last b))"
  proof (rule range_bucket_last[OF assms(1)], intro allI impI conjI)
    fix j assume j: "Suc j < length b"
    show "b ! Suc j \<noteq> 0" using nth_Suc_in_tl[OF j] assms(3) by metis
    have "hd b \<le> b ! j" using assms(1,2) j by (simp add: hd_conv_nth sorted_nth_mono)
    then show "js_between (Num v) (b ! j) (b ! Suc j) = Inr False"
      using assms(4) by simp
  qed
  then show ?thesis
    using getCapacityRange_bucket[OF assms(5)] getEntranceFeeRange_bucket[OF assms(6,7)] assms(8)
    by simp
qed

theorem range_bucket_below_first_witness:
  "range_bucket [10, 20] (Inr (Num 5)) = Inr (Num 20) \<and>
   getCapacityRange [10, 20]
     (Obj [(''capacity'', Num 5), (''fees'', Obj [(''entrance'', Num 5)])]) = Inr (Num 20) \<and>
   getEntranceFeeRange (Obj [(''capacity'', Num 5), (''fees'', Obj [(''entrance'', Num 5)])])
     (Some \<lparr>currency = Str ''EUR'', entranceFeeRanges = [10, 20],
            priceClassRanges_coke = [], priceClassRanges_beer = []\<rparr>) = Inr (Num 20)"
  using range_bucket_below_first[of "[10, 20]" 5
      "Obj [(''capacity'', Num 5), (''fees'', Obj [(''entrance'', Num 5)])]"
      "Obj [(''entrance'', Num 5)]"
      "\<lparr>currency = Str ''EUR'', entranceFeeRanges = [10, 20],
        priceClassRanges_coke = [], priceClassRanges_beer = []\<rparr>"]
  by simp

text \<open>
  C4.  For every boundary table \<open>b\<close> (strictly ascending, of non-negative boundaries) and
  every value \<open>v\<close> with \<open>b[i] < v \<le> b[i+1]\<close>, the range bucketer returns the pair
  \<open>[b[i], b[i+1]]\<close>, both in \<open>getCapacityRange\<close> and in \<open>getEntranceFeeRange\<close>, and \<open>i\<close> is
  the smallest index with that property: the lower bound is exclusive and the upper bound
  inclusive, so a value equal to a boundary falls into the bucket below it.
\<close>

theorem range_bucket_interval:
  assumes "valid_ranges b" "Suc i < length b" "b ! i < v" "v \<le> b ! Suc i"
    and "get_prop venue ''capacity'' = Inr (Num v)"
    and "get_prop venue ''fees'' = Inr fees" "get_prop fees ''entrance'' = Inr (Num v)"
    and "entranceFeeRanges c = b"
  shows "range_bucket b (Inr (Num v)) = Inr (Arr [Num (b ! i), Num (b ! Suc i)]) \<and>
         getCapacityRange b venue = Inr (Arr [Num (b ! i), Num (b ! Suc i)]) \<and>
         getEntranceFeeRange venue (Some c) = Inr (Arr [Num (b ! i), Num (b ! Suc i)]) \<and>
         (\<forall>j. Suc j < length b \<and> b ! j < v \<and> v \<le> b ! Suc j \<longrightarrow> i \<le> j)"
proof -
  have less: "\<not> v \<le> b ! Suc j" if "j < i" for j
  proof -
    have "b ! Suc j \<le> b ! i"
      using valid_ranges_nth_mono[OF assms(1), of "Suc j" i] that assms(2)
      by (cases "Suc j = i") auto
    then show ?thesis using assms(3) by simp
  qed
  have "range_bucket b (Inr (Num v)) = Inr (Arr [Num (b ! i), Num (b ! Suc i)])"
  proof (rule range_bucket_hit[OF assms(2)])
    show "b ! Suc i \<noteq> 0" using nth_Suc_in_tl[OF assms(2)] valid_ranges_tl[OF assms(1)] by metis
    show "js_between (Num v) (b ! i) (b ! Suc i) = Inr True" using assms(3,4) by simp
    show "\<forall>j. j < i \<longrightarrow>
            b ! Suc j \<noteq> 0 \<and> js_between (Num v) (b ! j) (b ! Suc j) = Inr False"
    proof (intro allI impI conjI)
      fix j assume j: "j < i"
      then have "Suc j < length b" using assms(2) by simp
      then show "b ! Suc j \<noteq> 0" using nth_Suc_in_tl valid_ranges_tl[OF assms(1)] by metis
      show "js_between (Num v) (b ! j) (b ! Suc j) = Inr False" using less[OF j] by simp
    qed
  qed
  moreover have "\<forall>j. Suc j < length b \<and> b ! j < v \<and> v \<le> b ! Suc j \<longrightarrow> i \<le> j"
    using less by (meson not_le_imp_less)
  ultimately show ?thesis
    using getCapacityRange_bucket[OF assms(5)] getEntranceFeeRange_bucket[OF assms(6,7)] assms(8)
    by simp
qed

theorem range_bucket_interval_witness:
  "range_bucket [0, 50, 100] (Inr (Num 75)) = Inr (Arr [Num 50, Num 100]) \<and>
   range_bucket [0, 50, 100] (Inr (Num 50)) = Inr (Arr [Num 0, Num 50]) \<and>
   getCapacityRange [0, 50, 100]
     (Obj [(''capacity'', Num 75), (''fees'', Obj [(''entrance'', Num 75)])])
     = Inr (Arr [Num 50, Num 100])"
  using range_bucket_interval[of "[0, 50, 100]" 1 75
      "Obj [(''capacity'', Num 75), (''fees'', Obj [(''entrance'', Num 75)])]"
      "Obj [(''entrance'', Num 75)]"
      "\<lparr>currency = Str ''EUR'', entranceFeeRanges = [0, 50, 100],
        priceClassRanges_coke = [], priceClassRanges_beer = []\<rparr>"]
    range_bucket_interval[of "[0, 50, 100]" 0 50
      "Obj [(''capacity'', Num 50), (''fees'', Obj [(''entrance'', Num 50)])]"
      "Obj [(''entrance'', Num 50)]"
      "\<lparr>currency = Str ''EUR'', entranceFeeRanges = [0, 50, 100],
        priceClassRanges_coke = [], priceClassRanges_beer = []\<rparr>"]
  by (simp add: valid_ranges_def)

section \<open>Properties of the price class\<close>






















section \<open>Properties of serialization and deserialization\<close>

lemma same_field_refl [simp]: "same_field k d d"
  by (simp add: same_field_def)

lemma same_field_trans: "same_field k a b \<Longrightarrow> same_field k b c \<Longrightarrow> same_field k a c"
  by (simp add: same_field_def)

lemma obj_keys_set: "obj_keys (set_prop (Obj kvs) k v) = insert k (obj_keys (Obj kvs))"
  using dom_update[of k v kvs] by (simp add: dom_map_of_conv_image_fst)

lemma obj_keys_delete: "obj_keys (delete_prop (Obj kvs) k) = obj_keys (Obj kvs) - {k}"
  using delete_keys[of k kvs] by (simp flip: set_map)

lemma same_field_set:
  assumes "k' \<noteq> k"
  shows "same_field k' d (set_prop d k v)"
proof (cases d)
  case (Obj kvs)
  with assms show ?thesis
    unfolding same_field_def Obj obj_keys_set by (simp add: update_conv')
qed (simp_all add: same_field_def)

lemma same_field_delete:
  assumes "k' \<noteq> k"
  shows "same_field k' d (delete_prop d k)"
proof (cases d)
  case (Obj kvs)
  with assms show ?thesis
    unfolding same_field_def Obj obj_keys_delete by (simp add: delete_conv')
qed (simp_all add: same_field_def)

lemma serialize_id_frame:
  "serialize_id d = Inr d' \<Longrightarrow> k \<noteq> ''_id'' \<Longrightarrow> k \<noteq> ''id'' \<Longrightarrow> same_field k d d'"
  by (auto simp add: serialize_id_def bind_err_def split: sum.splits if_splits
      intro: same_field_trans[OF same_field_set same_field_delete])

lemma serialize_priceClass_frame:
  "serialize_priceClass cc d = Inr d' \<Longrightarrow> k \<noteq> ''priceClass'' \<Longrightarrow> same_field k d d'"
  by (auto simp add: serialize_priceClass_def bind_err_def split: sum.splits if_splits
      intro: same_field_set)

lemma serialize_coordinates_frame:
  "serialize_coordinates d = Inr d' \<Longrightarrow> k \<noteq> ''location'' \<Longrightarrow> same_field k d d'"
  by (auto simp add: serialize_coordinates_def bind_err_def split: sum.splits if_splits
      intro: same_field_set)

lemma serialize_queryText_frame:
  "serialize_queryText tbl d = Inr d' \<Longrightarrow> k \<noteq> ''queryText'' \<Longrightarrow> same_field k d d'"
  by (auto simp add: serialize_queryText_def bind_err_def split: sum.splits if_splits
      intro: same_field_set)

lemma serialize_steps:
  assumes "serialize g tbl d = (d', None)"
  obtains d1 cc d2 d3 where "serialize_id d = Inr d1" "serialize_cityConf g d1 = Inr cc"
    "serialize_priceClass cc d1 = Inr d2" "serialize_coordinates d2 = Inr d3"
    "serialize_queryText tbl d3 = Inr d'"
  using assms by (auto simp add: serialize_def split: sum.splits)

lemma serialize_frame:
  assumes "serialize g tbl d = (d', None)"
    and "k \<notin> {''_id'', ''id'', ''priceClass'', ''location'', ''queryText''}"
  shows "same_field k d d'"
proof -
  from assms(1) obtain d1 cc d2 d3 where s: "serialize_id d = Inr d1"
    "serialize_priceClass cc d1 = Inr d2" "serialize_coordinates d2 = Inr d3"
    "serialize_queryText tbl d3 = Inr d'"
    by (rule serialize_steps)
  have "same_field k d d1" using serialize_id_frame[OF s(1)] assms(2) by simp
  moreover have "same_field k d1 d2" using serialize_priceClass_frame[OF s(2)] assms(2) by simp
  moreover have "same_field k d2 d3" using serialize_coordinates_frame[OF s(3)] assms(2) by simp
  moreover have "same_field k d3 d'" using serialize_queryText_frame[OF s(4)] assms(2) by simp
  ultimately show ?thesis by (blast intro: same_field_trans)
qed

lemma deserialize_id_frame:
  "deserialize_id d = Inr d' \<Longrightarrow> k \<notin> {''id'', ''_id'', ''sourceId'', ''queryText''} \<Longrightarrow> same_field k d d'"
  by (auto simp add: deserialize_id_def bind_err_def split: sum.splits if_splits
      intro!: same_field_trans[OF same_field_set same_field_trans[OF same_field_delete
                same_field_trans[OF same_field_delete same_field_delete]]])

lemma deserialize_images_frame:
  "deserialize_images d = Inr d' \<Longrightarrow> k \<noteq> ''images'' \<Longrightarrow> same_field k d d'"
  by (auto simp add: deserialize_images_def bind_err_def split: sum.splits if_splits jsval.splits
      intro: same_field_set)

lemma deserialize_coordinates_frame:
  "deserialize_coordinates d = Inr d' \<Longrightarrow> k \<noteq> ''location'' \<Longrightarrow> same_field k d d'"
  by (auto simp add: deserialize_coordinates_def bind_err_def split: sum.splits if_splits
      intro: same_field_set)

lemma deserialize_capacity_frame:
  "deserialize_capacity caps d = Inr d' \<Longrightarrow> k \<noteq> ''capacityRange'' \<Longrightarrow> same_field k d d'"
  by (auto simp add: deserialize_capacity_def bind_err_def split: sum.splits if_splits
      intro: same_field_set)

lemma deserialize_fees_frame:
  "deserialize_fees cc d = Inr d' \<Longrightarrow> k \<notin> {''currency'', ''entranceFeeRange''} \<Longrightarrow> same_field k d d'"
  by (auto simp add: deserialize_fees_def bind_err_def Let_def
      split: sum.splits if_splits option.splits
      intro: same_field_set same_field_trans[OF same_field_set same_field_set])

lemma deserialize_steps:
  assumes "deserialize g caps h = Inr v"
  obtains v0 v1 v2 v3 cc v4 where "snapshot h = Inr v0" "deserialize_id v0 = Inr v1"
    "deserialize_images v1 = Inr v2" "deserialize_coordinates v2 = Inr v3"
    "deserialize_cityConf g v3 = Inr cc" "deserialize_capacity caps v3 = Inr v4"
    "deserialize_fees cc v4 = Inr v"
  using assms by (auto simp add: deserialize_def bind_err_def split: sum.splits)

lemma snapshot_contents: "snapshot h = Inr v \<Longrightarrow> v = contents h"
  by (cases h) (auto simp add: bind_err_def split: sum.splits if_splits)


lemma deserialize_frame:
  assumes "deserialize g caps h = Inr v"
    and "k \<notin> {''id'', ''_id'', ''sourceId'', ''queryText'', ''images'', ''location'',
               ''capacityRange'', ''currency'', ''entranceFeeRange''}"
  shows "same_field k (contents h) v"
proof -
  from assms(1) obtain v0 v1 v2 v3 cc v4 where s: "snapshot h = Inr v0"
    "deserialize_id v0 = Inr v1" "deserialize_images v1 = Inr v2"
    "deserialize_coordinates v2 = Inr v3" "deserialize_capacity caps v3 = Inr v4"
    "deserialize_fees cc v4 = Inr v"
    by (rule deserialize_steps)
  have "same_field k (contents h) v0" using snapshot_contents[OF s(1)] by simp
  moreover have "same_field k v0 v1" using deserialize_id_frame[OF s(2)] assms(2) by simp
  moreover have "same_field k v1 v2" using deserialize_images_frame[OF s(3)] assms(2) by simp
  moreover have "same_field k v2 v3" using deserialize_coordinates_frame[OF s(4)] assms(2) by simp
  moreover have "same_field k v3 v4" using deserialize_capacity_frame[OF s(5)] assms(2) by simp
  moreover have "same_field k v4 v" using deserialize_fees_frame[OF s(6)] assms(2) by simp
  ultimately show ?thesis by (blast intro: same_field_trans)
qed

lemma get_prop_Obj: "get_prop d k = Inr v \<Longrightarrow> v \<noteq> Undefined \<Longrightarrow> \<exists>kvs. d = Obj kvs"
  by (cases d) auto

lemma get_prop_truthy_Obj: "get_prop d k = Inr v \<Longrightarrow> truthy v \<Longrightarrow> \<exists>kvs. d = Obj kvs"
  by (cases d) auto

lemma get_set_same: "get_prop (set_prop (Obj kvs) k v) k = Inr v"
  by (simp add: update_conv')

lemma same_field_get: "same_field k d d' \<Longrightarrow> get_prop d' k = get_prop d k"
  by (simp add: same_field_def)

lemma serialize_coordinates_location:
  assumes "serialize_coordinates d = Inr d'" "get_prop d ''location'' = Inr loc"
  shows "(get_prop d' ''location'' = Inr loc \<and>
            (\<not> truthy loc \<or> (\<exists>c. get_prop loc ''coordinates'' = Inr c \<and> \<not> truthy c))) \<or>
         (\<exists>c lon lat. get_prop loc ''coordinates'' = Inr c \<and> truthy c \<and>
            get_prop c ''longitude'' = Inr lon \<and> get_prop c ''latitude'' = Inr lat \<and>
            get_prop d' ''location'' = Inr (set_prop loc ''coordinates''
               (Obj [(''type'', Str ''Point''), (''coordinates'', Arr [lon, lat])])))"
proof (cases "truthy loc")
  case False
  then show ?thesis using assms by (simp add: serialize_coordinates_def bind_err_def)
next
  case True
  then obtain kvs where d: "d = Obj kvs" using get_prop_truthy_Obj[OF assms(2)] by auto
  from True obtain c where c: "get_prop loc ''coordinates'' = Inr c"
    by (cases loc) auto
  show ?thesis
  proof (cases "truthy c")
    case False
    then show ?thesis using assms c True by (simp add: serialize_coordinates_def bind_err_def)
  next
    case tc: True
    then obtain lon lat where l: "get_prop c ''longitude'' = Inr lon" "get_prop c ''latitude'' = Inr lat"
      by (cases c) auto
    have "d' = set_prop d ''location'' (set_prop loc ''coordinates''
               (Obj [(''type'', Str ''Point''), (''coordinates'', Arr [lon, lat])]))"
      using assms c True tc l by (simp add: serialize_coordinates_def bind_err_def)
    then show ?thesis using c tc l unfolding d by (simp only: get_set_same) simp
  qed
qed

lemma deserialize_coordinates_location:
  assumes "deserialize_coordinates d = Inr d'" "get_prop d ''location'' = Inr loc"
  shows "(get_prop d' ''location'' = Inr loc \<and>
            (\<exists>c. get_prop loc ''coordinates'' = Inr c \<and> \<not> truthy c)) \<or>
         (\<exists>c pair lon lat. get_prop loc ''coordinates'' = Inr c \<and> truthy c \<and>
            get_prop c ''coordinates'' = Inr pair \<and>
            get_index pair 0 = Inr lon \<and> get_index pair 1 = Inr lat \<and>
            get_prop d' ''location'' = Inr (set_prop loc ''coordinates''
               (Obj [(''longitude'', lon), (''latitude'', lat)])))"
proof -
  from assms obtain c where c: "get_prop loc ''coordinates'' = Inr c"
    by (auto simp add: deserialize_coordinates_def bind_err_def split: sum.splits)
  show ?thesis
  proof (cases "truthy c")
    case False
    then show ?thesis using assms c by (simp add: deserialize_coordinates_def bind_err_def)
  next
    case tc: True
    then obtain lkvs where "loc = Obj lkvs" using get_prop_truthy_Obj[OF c] by auto
    then obtain kvs where d: "d = Obj kvs" using get_prop_Obj[OF assms(2)] by auto
    from assms c tc obtain pair lon lat where p: "get_prop c ''coordinates'' = Inr pair"
      "get_index pair 0 = Inr lon" "get_index pair 1 = Inr lat"
      by (auto simp add: deserialize_coordinates_def bind_err_def split: sum.splits)
    have "d' = set_prop d ''location'' (set_prop loc ''coordinates''
               (Obj [(''longitude'', lon), (''latitude'', lat)]))"
      using assms c tc p by (simp add: deserialize_coordinates_def bind_err_def)
    then show ?thesis using c tc p unfolding d by (simp only: get_set_same) simp
  qed
qed

lemma serialize_location:
  assumes "serialize g tbl d = (d', None)" "get_prop d ''location'' = Inr loc"
  shows "(get_prop d' ''location'' = Inr loc \<and>
            (\<not> truthy loc \<or> (\<exists>c. get_prop loc ''coordinates'' = Inr c \<and> \<not> truthy c))) \<or>
         (\<exists>c lon lat. get_prop loc ''coordinates'' = Inr c \<and> truthy c \<and>
            get_prop c ''longitude'' = Inr lon \<and> get_prop c ''latitude'' = Inr lat \<and>
            get_prop d' ''location'' = Inr (set_prop loc ''coordinates''
               (Obj [(''type'', Str ''Point''), (''coordinates'', Arr [lon, lat])])))"
proof -
  from assms(1) obtain d1 cc d2 d3 where s: "serialize_id d = Inr d1"
    "serialize_priceClass cc d1 = Inr d2" "serialize_coordinates d2 = Inr d3"
    "serialize_queryText tbl d3 = Inr d'"
    by (rule serialize_steps)
  have "get_prop d1 ''location'' = Inr loc"
    using same_field_get[OF serialize_id_frame[OF s(1), of "''location''"]] assms(2) by simp
  then have "get_prop d2 ''location'' = Inr loc"
    using same_field_get[OF serialize_priceClass_frame[OF s(2), of "''location''"]] by simp
  from serialize_coordinates_location[OF s(3) this]
  show ?thesis
    using same_field_get[OF serialize_queryText_frame[OF s(4), of "''location''"]] by simp
qed

lemma deserialize_location:
  assumes "deserialize g caps h = Inr v" "get_prop (contents h) ''location'' = Inr loc"
  shows "(get_prop v ''location'' = Inr loc \<and>
            (\<exists>c. get_prop loc ''coordinates'' = Inr c \<and> \<not> truthy c)) \<or>
         (\<exists>c pair lon lat. get_prop loc ''coordinates'' = Inr c \<and> truthy c \<and>
            get_prop c ''coordinates'' = Inr pair \<and>
            get_index pair 0 = Inr lon \<and> get_index pair 1 = Inr lat \<and>
            get_prop v ''location'' = Inr (set_prop loc ''coordinates''
               (Obj [(''longitude'', lon), (''latitude'', lat)])))"
proof -
  from assms(1) obtain v0 v1 v2 v3 cc v4 where s: "snapshot h = Inr v0"
    "deserialize_id v0 = Inr v1" "deserialize_images v1 = Inr v2"
    "deserialize_coordinates v2 = Inr v3" "deserialize_capacity caps v3 = Inr v4"
    "deserialize_fees cc v4 = Inr v"
    by (rule deserialize_steps)
  have "get_prop v0 ''location'' = Inr loc" using snapshot_contents[OF s(1)] assms(2) by simp
  then have "get_prop v1 ''location'' = Inr loc"
    using same_field_get[OF deserialize_id_frame[OF s(2), of "''location''"]] by simp
  then have "get_prop v2 ''location'' = Inr loc"
    using same_field_get[OF deserialize_images_frame[OF s(3), of "''location''"]] by simp
  from deserialize_coordinates_location[OF s(4) this]
  show ?thesis
    using same_field_get[OF deserialize_capacity_frame[OF s(5), of "''location''"]]
      same_field_get[OF deserialize_fees_frame[OF s(6), of "''location''"]] by simp
qed

text \<open>The definitions a concrete run of the two functions unfolds.\<close>

lemmas serialize_eval = serialize_def serialize_id_def serialize_cityConf_def
  serialize_priceClass_def serialize_coordinates_def serialize_queryText_def bind_err_def
  sample_get_def sample_conf_def sample_tbl_def

lemmas deserialize_eval = deserialize_def deserialize_id_def deserialize_images_def
  deserialize_coordinates_def deserialize_cityConf_def deserialize_capacity_def
  deserialize_fees_def deserializeImage_def

text \<open>
  C3 (as stated, refuted).  The claim gives \<open>queryText = "x"\<close> for the payload
  \<open>{name: "X"}\<close>.  \<open>unidecode\<close> leaves ASCII letters as they are and nothing lowercases the
  name: the document has \<open>queryText = "X"\<close>.
\<close>

theorem serialize_name_only_counterexample:
  "serialize sample_get sample_tbl (Obj [(''name'', Str ''X'')])
     = (Obj [(''name'', Str ''X''), (''queryText'', Str ''X'')], None) \<and>
   Str ''X'' \<noteq> Str ''x''"
  by (simp add: serialize_eval)

text \<open>
  C3 (amended).  \<open>serialize\<close> applied to the partial payload \<open>{name: "X"}\<close> produces a
  document whose key set is exactly \<open>{name, queryText}\<close>, with \<open>name = "X"\<close> and
  \<open>queryText = "X"\<close>; no other key is synthesized.
\<close>

theorem serialize_name_only:
  "serialize g tbl (Obj [(''name'', Str ''X'')])
     = (Obj [(''name'', Str ''X''), (''queryText'', Str ''X'')], None) \<and>
   obj_keys (fst (serialize g tbl (Obj [(''name'', Str ''X'')]))) = {''name'', ''queryText''}"
  by (auto simp add: serialize_eval)

text \<open>
  C7.  For every coordinate pair, \<open>serialize\<close> encodes
  \<open>location.coordinates = {longitude: lon, latitude: lat}\<close> as
  \<open>{type: "Point", coordinates: [lon, lat]}\<close>, longitude first, and \<open>deserialize\<close> of the
  document decodes it back to \<open>{longitude: lon, latitude: lat}\<close>.
\<close>

theorem geo_point_roundtrip:
  assumes "get_prop data ''location'' = Inr location"
    and "get_prop location ''coordinates'' = Inr coords" "truthy coords"
    and "get_prop coords ''longitude'' = Inr lon" "get_prop coords ''latitude'' = Inr lat"
    and "serialize g tbl data = (doc, None)"
  shows "(\<exists>loc'. get_prop doc ''location'' = Inr loc' \<and>
            get_prop loc' ''coordinates''
              = Inr (Obj [(''type'', Str ''Point''), (''coordinates'', Arr [lon, lat])])) \<and>
         (\<forall>h view. contents h = doc \<and> deserialize g' caps h = Inr view \<longrightarrow>
            (\<exists>loc''. get_prop view ''location'' = Inr loc'' \<and>
               get_prop loc'' ''coordinates''
                 = Inr (Obj [(''longitude'', lon), (''latitude'', lat)])))"
proof -
  let ?P = "Obj [(''type'', Str ''Point''), (''coordinates'', Arr [lon, lat])]"
  obtain lkvs where l: "location = Obj lkvs" using get_prop_truthy_Obj[OF assms(2,3)] by auto
  have d: "get_prop doc ''location'' = Inr (set_prop location ''coordinates'' ?P)"
    using serialize_location[OF assms(6,1)] assms(2-5) l by auto
  have c: "get_prop (set_prop location ''coordinates'' ?P) ''coordinates'' = Inr ?P"
    unfolding l by (rule get_set_same)
  have "\<exists>loc''. get_prop view ''location'' = Inr loc'' \<and>
               get_prop loc'' ''coordinates'' = Inr (Obj [(''longitude'', lon), (''latitude'', lat)])"
    if h: "contents h = doc" "deserialize g' caps h = Inr view" for h view
  proof -
    have "get_prop (contents h) ''location'' = Inr (set_prop location ''coordinates'' ?P)"
      using d h(1) by simp
    from deserialize_location[OF h(2) this]
    have "get_prop view ''location''
        = Inr (set_prop (set_prop location ''coordinates'' ?P) ''coordinates''
                 (Obj [(''longitude'', lon), (''latitude'', lat)]))"
      unfolding c by auto
    then show ?thesis unfolding l by (simp add: update_conv')
  qed
  then show ?thesis using d c by blast
qed

theorem geo_point_roundtrip_witness:
  "serialize sample_get sample_tbl
     (Obj [(''name'', Str ''V''),
           (''location'', Obj [(''country'', Str ''DK''), (''city'', Str ''Odense''),
              (''coordinates'', Obj [(''longitude'', Num 10), (''latitude'', Num 55)])])])
   = (Obj [(''name'', Str ''V''),
           (''location'', Obj [(''country'', Str ''DK''), (''city'', Str ''Odense''),
              (''coordinates'', Obj [(''type'', Str ''Point''),
                                    (''coordinates'', Arr [Num 10, Num 55])])]),
           (''queryText'', Str ''V'')], None) \<and>
   deserialize sample_get [0, 50, 100]
     (Plain (Obj [(''name'', Str ''V''),
           (''location'', Obj [(''country'', Str ''DK''), (''city'', Str ''Odense''),
              (''coordinates'', Obj [(''type'', Str ''Point''),
                                    (''coordinates'', Arr [Num 10, Num 55])])]),
           (''queryText'', Str ''V'')]))
   = Inr (Obj [(''name'', Str ''V''),
           (''location'', Obj [(''country'', Str ''DK''), (''city'', Str ''Odense''),
              (''coordinates'', Obj [(''longitude'', Num 10), (''latitude'', Num 55)])]),
           (''id'', Undefined)])"
  using geo_point_roundtrip[of
     "Obj [(''name'', Str ''V''),
           (''location'', Obj [(''country'', Str ''DK''), (''city'', Str ''Odense''),
              (''coordinates'', Obj [(''longitude'', Num 10), (''latitude'', Num 55)])])]"
     "Obj [(''country'', Str ''DK''), (''city'', Str ''Odense''),
              (''coordinates'', Obj [(''longitude'', Num 10), (''latitude'', Num 55)])]"
     "Obj [(''longitude'', Num 10), (''latitude'', Num 55)]" "Num 10" "Num 55"
     sample_get sample_tbl
     "Obj [(''name'', Str ''V''),
           (''location'', Obj [(''country'', Str ''DK''), (''city'', Str ''Odense''),
              (''coordinates'', Obj [(''type'', Str ''Point''),
                                    (''coordinates'', Arr [Num 10, Num 55])])]),
           (''queryText'', Str ''V'')]" sample_get "[0, 50, 100]"]
  by (simp add: serialize_eval deserialize_eval)

lemma serialize_location_fields:
  assumes "serialize g tbl d = (d', None)" "get_prop d ''location'' = Inr loc"
    and "k \<noteq> ''coordinates''"
  shows "\<exists>loc'. get_prop d' ''location'' = Inr loc' \<and> same_field k loc loc'"
  using serialize_location[OF assms(1,2)] same_field_set[OF assms(3)] by auto

lemma deserialize_location_fields:
  assumes "deserialize g caps h = Inr v" "get_prop (contents h) ''location'' = Inr loc"
    and "k \<noteq> ''coordinates''"
  shows "\<exists>loc'. get_prop v ''location'' = Inr loc' \<and> same_field k loc loc'"
  using deserialize_location[OF assms(1,2)] same_field_set[OF assms(3)] by auto

lemma get_prop_other: "get_prop d k = Inr v \<Longrightarrow> \<exists>v'. get_prop d k' = Inr v'"
  by (cases d) auto

text \<open>
  C6 (as stated, refuted).  \<open>sourceId\<close> is touched neither by the computed fields nor by
  the identifier rename nor by the geo-point encoding, so the claim has it preserved.
  \<open>deserialize\<close> deletes it: a payload with \<open>sourceId = "s1"\<close> comes back without it.
\<close>

theorem roundtrip_passthrough_counterexample:
  "serialize sample_get sample_tbl
     (Obj [(''name'', Str ''V''), (''sourceId'', Str ''s1''),
           (''location'', Obj [(''country'', Str ''DK''), (''city'', Str ''Odense'')])])
   = (Obj [(''name'', Str ''V''), (''sourceId'', Str ''s1''),
           (''location'', Obj [(''country'', Str ''DK''), (''city'', Str ''Odense'')]),
           (''queryText'', Str ''V'')], None) \<and>
   deserialize sample_get [0, 50, 100]
     (Plain (Obj [(''name'', Str ''V''), (''sourceId'', Str ''s1''),
           (''location'', Obj [(''country'', Str ''DK''), (''city'', Str ''Odense'')]),
           (''queryText'', Str ''V'')]))
   = Inr (Obj [(''name'', Str ''V''),
           (''location'', Obj [(''country'', Str ''DK''), (''city'', Str ''Odense'')]),
           (''id'', Undefined)])"
  by (simp add: serialize_eval deserialize_eval)

text \<open>
  C6 (amended).  Whenever \<open>serialize\<close> of a payload and \<open>deserialize\<close> of the resulting
  document both return, every top-level field other than \<open>id\<close>, \<open>_id\<close>, \<open>sourceId\<close>,
  \<open>queryText\<close>, \<open>images\<close>, \<open>location\<close>, \<open>priceClass\<close>, \<open>capacityRange\<close>, \<open>currency\<close> and
  \<open>entranceFeeRange\<close> is preserved at its original value (and is present exactly when it
  was), and so is every field of \<open>location\<close> other than \<open>coordinates\<close>.
\<close>

theorem roundtrip_passthrough:
  assumes "serialize g tbl payload = (doc, None)"
    and "deserialize g' caps (Plain doc) = Inr view"
  shows "(k \<notin> {''id'', ''_id'', ''sourceId'', ''queryText'', ''images'', ''location'',
                ''priceClass'', ''capacityRange'', ''currency'', ''entranceFeeRange''}
            \<longrightarrow> get_prop view k = get_prop payload k \<and>
                (k \<in> obj_keys view) = (k \<in> obj_keys payload)) \<and>
         (k' \<noteq> ''coordinates'' \<longrightarrow>
            (\<exists>loc loc'. get_prop payload ''location'' = Inr loc \<and>
               get_prop view ''location'' = Inr loc' \<and>
               get_prop loc' k' = get_prop loc k' \<and>
               (k' \<in> obj_keys loc') = (k' \<in> obj_keys loc)))"
proof (rule conjI; rule impI)
  assume k: "k \<notin> {''id'', ''_id'', ''sourceId'', ''queryText'', ''images'', ''location'',
                ''priceClass'', ''capacityRange'', ''currency'', ''entranceFeeRange''}"
  have "same_field k payload doc" using serialize_frame[OF assms(1)] k by simp
  moreover have "same_field k (contents (Plain doc)) view"
    using deserialize_frame[OF assms(2)] k by simp
  ultimately show "get_prop view k = get_prop payload k \<and>
                (k \<in> obj_keys view) = (k \<in> obj_keys payload)"
    by (simp add: same_field_def)
next
  assume k': "k' \<noteq> ''coordinates''"
  from assms(1) obtain loc where l: "get_prop payload ''location'' = Inr loc"
  proof -
    from assms(1) obtain d1 where "serialize_id payload = Inr d1" by (rule serialize_steps)
    then obtain i where "get_prop payload ''id'' = Inr i"
      by (auto simp add: serialize_id_def bind_err_def split: sum.splits)
    from get_prop_other[OF this] show ?thesis using that by blast
  qed
  from serialize_location_fields[OF assms(1) l k'] obtain loc1
    where l1: "get_prop doc ''location'' = Inr loc1" "same_field k' loc loc1" by auto
  from deserialize_location_fields[OF assms(2) _ k', of loc1] l1(1) obtain loc2
    where l2: "get_prop view ''location'' = Inr loc2" "same_field k' loc1 loc2" by auto
  show "\<exists>loc loc'. get_prop payload ''location'' = Inr loc \<and>
               get_prop view ''location'' = Inr loc' \<and>
               get_prop loc' k' = get_prop loc k' \<and>
               (k' \<in> obj_keys loc') = (k' \<in> obj_keys loc)"
    using l l2(1) same_field_trans[OF l1(2) l2(2)] by (auto simp add: same_field_def)
qed


theorem roundtrip_passthrough_witness:
  "serialize sample_get sample_tbl
     (Obj [(''name'', Str ''V''), (''website'', Str ''v.dk''), (''capacity'', Num 75),
           (''location'', Obj [(''country'', Str ''DK''), (''city'', Str ''Odense''),
                               (''address'', Str ''Torvet 1'')])])
   = (Obj [(''name'', Str ''V''), (''website'', Str ''v.dk''), (''capacity'', Num 75),
           (''location'', Obj [(''country'', Str ''DK''), (''city'', Str ''Odense''),
                               (''address'', Str ''Torvet 1'')]),
           (''queryText'', Str ''V'')], None) \<and>
   deserialize sample_get [0, 50, 100]
     (Plain (Obj [(''name'', Str ''V''), (''website'', Str ''v.dk''), (''capacity'', Num 75),
           (''location'', Obj [(''country'', Str ''DK''), (''city'', Str ''Odense''),
                               (''address'', Str ''Torvet 1'')]),
           (''queryText'', Str ''V'')]))
   = Inr (Obj [(''name'', Str ''V''), (''website'', Str ''v.dk''), (''capacity'', Num 75),
           (''location'', Obj [(''country'', Str ''DK''), (''city'', Str ''Odense''),
                               (''address'', Str ''Torvet 1'')]),
           (''id'', Undefined), (''capacityRange'', Arr [Num 50, Num 100])])"
  using roundtrip_passthrough[of sample_get sample_tbl
     "Obj [(''name'', Str ''V''), (''website'', Str ''v.dk''), (''capacity'', Num 75),
           (''location'', Obj [(''country'', Str ''DK''), (''city'', Str ''Odense''),
                               (''address'', Str ''Torvet 1'')])]"
     "Obj [(''name'', Str ''V''), (''website'', Str ''v.dk''), (''capacity'', Num 75),
           (''location'', Obj [(''country'', Str ''DK''), (''city'', Str ''Odense''),
                               (''address'', Str ''Torvet 1'')]),
           (''queryText'', Str ''V'')]"
     sample_get "[0, 50, 100]"
     "Obj [(''name'', Str ''V''), (''website'', Str ''v.dk''), (''capacity'', Num 75),
           (''location'', Obj [(''country'', Str ''DK''), (''city'', Str ''Odense''),
                               (''address'', Str ''Torvet 1'')]),
           (''id'', Undefined), (''capacityRange'', Arr [Num 50, Num 100])]"
     "''website''" "''address''"]
  by (simp add: serialize_eval deserialize_eval getCapacityRange_def range_bucket_def
      reduce_def range_step_def bound_at_def)

lemma deserialize_capacity_skip:
  "get_prop v ''capacity'' = Inr x \<Longrightarrow> \<not> truthy x \<Longrightarrow> deserialize_capacity caps v = Inr v"
  by (simp add: deserialize_capacity_def bind_err_def)

lemma deserialize_fees_skip:
  "get_prop v ''fees'' = Inr x \<Longrightarrow> \<not> truthy x \<Longrightarrow> deserialize_fees cityConf v = Inr v"
  by (simp add: deserialize_fees_def bind_err_def)

lemma serialize_priceClass_skip:
  "get_prop d ''prices'' = Inr x \<Longrightarrow> \<not> truthy x \<Longrightarrow> serialize_priceClass cityConf d = Inr d"
  by (simp add: serialize_priceClass_def bind_err_def)

lemma deserialize_no_capacity:
  assumes "deserialize g caps h = Inr view" "get_prop (contents h) ''capacity'' = Inr Undefined"
  shows "same_field ''capacityRange'' (contents h) view"
proof -
  from assms(1) obtain v0 v1 v2 v3 cc v4 where s: "snapshot h = Inr v0"
    "deserialize_id v0 = Inr v1" "deserialize_images v1 = Inr v2"
    "deserialize_coordinates v2 = Inr v3" "deserialize_capacity caps v3 = Inr v4"
    "deserialize_fees cc v4 = Inr view"
    by (rule deserialize_steps)
  have v0: "v0 = contents h" by (rule snapshot_contents[OF s(1)])
  have f1: "same_field k v0 v1" if "k \<in> {''capacity'', ''capacityRange''}" for k
    using deserialize_id_frame[OF s(2), of k] that by auto
  have f2: "same_field k v1 v2" if "k \<in> {''capacity'', ''capacityRange''}" for k
    using deserialize_images_frame[OF s(3), of k] that by auto
  have f3: "same_field k v2 v3" if "k \<in> {''capacity'', ''capacityRange''}" for k
    using deserialize_coordinates_frame[OF s(4), of k] that by auto
  have "get_prop v3 ''capacity'' = Inr Undefined"
    using same_field_get[OF f1] same_field_get[OF f2] same_field_get[OF f3] assms(2) v0 by simp
  then have "v4 = v3" using deserialize_capacity_skip[of v3 Undefined caps] s(5) by simp
  moreover have "same_field ''capacityRange'' v4 view"
    using deserialize_fees_frame[OF s(6), of "''capacityRange''"] by simp
  ultimately show ?thesis
    using f1[of "''capacityRange''"] f2[of "''capacityRange''"] f3[of "''capacityRange''"] v0
    by (auto intro: same_field_trans)
qed

lemma deserialize_no_fees:
  assumes "deserialize g caps h = Inr view" "get_prop (contents h) ''fees'' = Inr Undefined"
    and "k \<in> {''currency'', ''entranceFeeRange''}"
  shows "same_field k (contents h) view"
proof -
  from assms(1) obtain v0 v1 v2 v3 cc v4 where s: "snapshot h = Inr v0"
    "deserialize_id v0 = Inr v1" "deserialize_images v1 = Inr v2"
    "deserialize_coordinates v2 = Inr v3" "deserialize_capacity caps v3 = Inr v4"
    "deserialize_fees cc v4 = Inr view"
    by (rule deserialize_steps)
  have v0: "v0 = contents h" by (rule snapshot_contents[OF s(1)])
  have f1: "same_field j v0 v1" if "j \<in> {''fees'', ''currency'', ''entranceFeeRange''}" for j
    using deserialize_id_frame[OF s(2), of j] that by auto
  have f2: "same_field j v1 v2" if "j \<in> {''fees'', ''currency'', ''entranceFeeRange''}" for j
    using deserialize_images_frame[OF s(3), of j] that by auto
  have f3: "same_field j v2 v3" if "j \<in> {''fees'', ''currency'', ''entranceFeeRange''}" for j
    using deserialize_coordinates_frame[OF s(4), of j] that by auto
  have f4: "same_field j v3 v4" if "j \<in> {''fees'', ''currency'', ''entranceFeeRange''}" for j
    using deserialize_capacity_frame[OF s(5), of j] that by auto
  have "get_prop v4 ''fees'' = Inr Undefined"
    using same_field_get[OF f1] same_field_get[OF f2] same_field_get[OF f3]
      same_field_get[OF f4] assms(2) v0 by simp
  then have "view = v4" using deserialize_fees_skip[of v4 Undefined cc] s(6) by simp
  then show ?thesis
    using f1[of k] f2[of k] f3[of k] f4[of k] v0 assms(3)
    by (auto intro: same_field_trans)
qed

lemma serialize_no_prices:
  assumes "serialize g tbl d = (doc, None)" "get_prop d ''prices'' = Inr Undefined"
  shows "same_field ''priceClass'' d doc"
proof -
  from assms(1) obtain d1 cc d2 d3 where s: "serialize_id d = Inr d1"
    "serialize_priceClass cc d1 = Inr d2" "serialize_coordinates d2 = Inr d3"
    "serialize_queryText tbl d3 = Inr doc"
    by (rule serialize_steps)
  have f1: "same_field j d d1" if "j \<in> {''prices'', ''priceClass''}" for j
    using serialize_id_frame[OF s(1), of j] that by auto
  have "get_prop d1 ''prices'' = Inr Undefined" using same_field_get[OF f1] assms(2) by simp
  then have "d2 = d1" using serialize_priceClass_skip[of d1 Undefined cc] s(2) by simp
  moreover have "same_field ''priceClass'' d2 d3"
    using serialize_coordinates_frame[OF s(3), of "''priceClass''"] by simp
  moreover have "same_field ''priceClass'' d3 doc"
    using serialize_queryText_frame[OF s(4), of "''priceClass''"] by simp
  ultimately show ?thesis using f1[of "''priceClass''"] by (auto intro: same_field_trans)
qed

text \<open>
  C8.  When an optional field is absent, the derived-field block is skipped without an
  error: the capacity block, the fees block and the price-class block return the object
  as it is, \<open>deserialize\<close> attaches no \<open>capacityRange\<close> when \<open>capacity\<close> is absent and no
  \<open>currency\<close> or \<open>entranceFeeRange\<close> when \<open>fees\<close> is absent, and \<open>serialize\<close> attaches no
  \<open>priceClass\<close> when \<open>prices\<close> is absent.
\<close>

theorem absent_fields_skipped:
  "(get_prop v ''capacity'' = Inr Undefined \<longrightarrow> deserialize_capacity caps v = Inr v) \<and>
   (get_prop v ''fees'' = Inr Undefined \<longrightarrow> deserialize_fees cityConf v = Inr v) \<and>
   (get_prop d ''prices'' = Inr Undefined \<longrightarrow> serialize_priceClass cityConf d = Inr d) \<and>
   (deserialize g caps h = Inr view \<and> get_prop (contents h) ''capacity'' = Inr Undefined \<longrightarrow>
      (''capacityRange'' \<in> obj_keys view) = (''capacityRange'' \<in> obj_keys (contents h))) \<and>
   (deserialize g caps h = Inr view \<and> get_prop (contents h) ''fees'' = Inr Undefined \<longrightarrow>
      (''currency'' \<in> obj_keys view) = (''currency'' \<in> obj_keys (contents h)) \<and>
      (''entranceFeeRange'' \<in> obj_keys view) = (''entranceFeeRange'' \<in> obj_keys (contents h))) \<and>
   (serialize g tbl d = (doc, None) \<and> get_prop d ''prices'' = Inr Undefined \<longrightarrow>
      (''priceClass'' \<in> obj_keys doc) = (''priceClass'' \<in> obj_keys d))"
  using deserialize_capacity_skip[of v Undefined caps] deserialize_fees_skip[of v Undefined cityConf]
    serialize_priceClass_skip[of d Undefined cityConf]
    deserialize_no_capacity[of g caps h view]
    deserialize_no_fees[of g caps h view "''currency''"]
    deserialize_no_fees[of g caps h view "''entranceFeeRange''"]
    serialize_no_prices[of g tbl d doc]
  by (simp add: same_field_def)

theorem absent_fields_skipped_witness:
  "deserialize sample_get [0, 50, 100]
     (Plain (Obj [(''_id'', Str ''a1''), (''name'', Str ''V''),
                  (''location'', Obj [(''country'', Str ''DK''), (''city'', Str ''Odense'')])]))
   = Inr (Obj [(''name'', Str ''V''),
               (''location'', Obj [(''country'', Str ''DK''), (''city'', Str ''Odense'')]),
               (''id'', Str ''a1'')]) \<and>
   serialize sample_get sample_tbl
     (Obj [(''name'', Str ''V''),
           (''location'', Obj [(''country'', Str ''DK''), (''city'', Str ''Odense'')])])
   = (Obj [(''name'', Str ''V''),
           (''location'', Obj [(''country'', Str ''DK''), (''city'', Str ''Odense'')]),
           (''queryText'', Str ''V'')], None)"
  using absent_fields_skipped[where
      v = "Obj [(''name'', Str ''V'')]" and caps = "[0, 50, 100]" and cityConf = None
      and d = "Obj [(''name'', Str ''V''),
           (''location'', Obj [(''country'', Str ''DK''), (''city'', Str ''Odense'')])]"
      and g = sample_get and tbl = sample_tbl
      and h = "Plain (Obj [(''_id'', Str ''a1''), (''name'', Str ''V''),
                  (''location'', Obj [(''country'', Str ''DK''), (''city'', Str ''Odense'')])])"
      and view = "Obj [(''name'', Str ''V''),
               (''location'', Obj [(''country'', Str ''DK''), (''city'', Str ''Odense'')]),
               (''id'', Str ''a1'')]"
      and doc = "Obj [(''name'', Str ''V''),
           (''location'', Obj [(''country'', Str ''DK''), (''city'', Str ''Odense'')]),
           (''queryText'', Str ''V'')]"]
  by (simp add: serialize_eval deserialize_eval)

lemma bind_err_TypeError:
  assumes "bind_err m f = Inl e"
    and "\<And>e'. m = Inl e' \<Longrightarrow> e' = TypeError"
    and "\<And>x e'. m = Inr x \<Longrightarrow> f x = Inl e' \<Longrightarrow> e' = TypeError"
  shows "e = TypeError"
  using assms by (cases m) (auto simp add: bind_err_def)

lemma get_prop_TypeError: "get_prop d k = Inl e \<Longrightarrow> e = TypeError"
  by (cases d) auto

lemma snapshot_TypeError: "snapshot h = Inl e \<Longrightarrow> e = TypeError"
  by (cases h) (auto simp add: bind_err_def split: sum.splits if_splits dest: get_prop_TypeError)

lemma deserializeImage_TypeError: "deserializeImage x = Inl e \<Longrightarrow> e = TypeError"
  by (auto simp add: deserializeImage_def bind_err_def split: sum.splits if_splits
      dest: get_prop_TypeError)

lemma map_err_TypeError: "map_err deserializeImage xs = Inl e \<Longrightarrow> e = TypeError"
  by (induction xs arbitrary: e)
     (auto simp add: bind_err_def split: sum.splits dest: deserializeImage_TypeError)

lemma deserialize_images_TypeError: "deserialize_images v = Inl e \<Longrightarrow> e = TypeError"
  by (auto simp add: deserialize_images_def bind_err_def
      split: sum.splits if_splits jsval.splits dest: get_prop_TypeError map_err_TypeError)

lemma deserialize_id_TypeError: "deserialize_id v = Inl e \<Longrightarrow> e = TypeError"
  by (auto simp add: deserialize_id_def bind_err_def split: sum.splits dest: get_prop_TypeError)

lemma deserialize_coordinates_no_location:
  assumes "get_prop v ''location'' = Inr l" "l = Undefined \<or> l = Null"
  shows "deserialize_coordinates v = Inl TypeError"
  using assms by (auto simp add: deserialize_coordinates_def bind_err_def)

lemma deserialize_no_location:
  assumes "get_prop (contents h) ''location'' = Inr l" "l = Undefined \<or> l = Null"
  shows "deserialize g caps h = Inl TypeError"
proof (cases "snapshot h")
  case (Inl e)
  then show ?thesis using snapshot_TypeError[OF Inl] by (simp add: deserialize_def bind_err_def)
next
  case (Inr v0)
  then have v0: "get_prop v0 ''location'' = Inr l" using snapshot_contents[OF Inr] assms(1) by simp
  show ?thesis
  proof (cases "deserialize_id v0")
    case (Inl e)
    then show ?thesis using deserialize_id_TypeError[OF Inl] Inr
      by (simp add: deserialize_def bind_err_def)
  next
    case v1: (Inr v1)
    have l1: "get_prop v1 ''location'' = Inr l"
      using same_field_get[OF deserialize_id_frame[OF v1, of "''location''"]] v0 by simp
    show ?thesis
    proof (cases "deserialize_images v1")
      case (Inl e)
      then show ?thesis using deserialize_images_TypeError[OF Inl] Inr v1
        by (simp add: deserialize_def bind_err_def)
    next
      case v2: (Inr v2)
      have "get_prop v2 ''location'' = Inr l"
        using same_field_get[OF deserialize_images_frame[OF v2, of "''location''"]] l1 by simp
      from deserialize_coordinates_no_location[OF this assms(2)]
      show ?thesis using Inr v1 v2 by (simp add: deserialize_def bind_err_def)
    qed
  qed
qed

lemma deserialize_lookup_throws:
  assumes "get_prop v ''toObject'' = Inr Undefined" "get_prop v ''images'' = Inr Undefined"
    and "get_prop v ''location'' = Inr loc" "get_prop loc ''coordinates'' = Inr Undefined"
    and "get_prop loc ''country'' = Inr country" "get_prop loc ''city'' = Inr city"
    and "g country city = Inl e"
  shows "deserialize g caps (Plain v) = Inl e"
proof -
  obtain i where i: "get_prop v ''_id'' = Inr i" using get_prop_other[OF assms(1)] by blast
  then obtain v1 where v1: "deserialize_id v = Inr v1"
    by (simp add: deserialize_id_def bind_err_def)
  have "get_prop v1 ''images'' = Inr Undefined"
    using same_field_get[OF deserialize_id_frame[OF v1, of "''images''"]] assms(2) by simp
  then have v2: "deserialize_images v1 = Inr v1"
    by (simp add: deserialize_images_def bind_err_def)
  have l1: "get_prop v1 ''location'' = Inr loc"
    using same_field_get[OF deserialize_id_frame[OF v1, of "''location''"]] assms(3) by simp
  then have v3: "deserialize_coordinates v1 = Inr v1"
    using assms(4) by (simp add: deserialize_coordinates_def bind_err_def)
  have "deserialize_cityConf g v1 = Inl e"
    using l1 assms(5-7) by (simp add: deserialize_cityConf_def bind_err_def)
  then show ?thesis using assms(1) v1 v2 v3 by (simp add: deserialize_def bind_err_def)
qed

lemma deserialize_coordinates_TypeError: "deserialize_coordinates v = Inl e \<Longrightarrow> e = TypeError"
proof -
  have idx: "get_index x i = Inl e' \<Longrightarrow> e' = TypeError" for x i e'
    by (cases x) (auto split: if_splits)
  assume "deserialize_coordinates v = Inl e"
  then show ?thesis
    by (auto simp add: deserialize_coordinates_def bind_err_def
        split: sum.splits if_splits dest: get_prop_TypeError idx)
qed

text \<open>
  The arguments of the lookup: after the blocks before it, the venue's location still has
  the country and the city of the document.
\<close>

lemma lookup_arguments:
  assumes "snapshot h = Inr v0" "deserialize_id v0 = Inr v1" "deserialize_images v1 = Inr v2"
    and "deserialize_coordinates v2 = Inr v3"
  shows "\<exists>loc loc3. get_prop (contents h) ''location'' = Inr loc \<and>
           get_prop v3 ''location'' = Inr loc3 \<and>
           get_prop loc3 ''country'' = get_prop loc ''country'' \<and>
           get_prop loc3 ''city'' = get_prop loc ''city''"
proof -
  from assms(4) obtain loc where l2: "get_prop v2 ''location'' = Inr loc"
    by (auto simp add: deserialize_coordinates_def bind_err_def split: sum.splits)
  then have l1: "get_prop v1 ''location'' = Inr loc"
    using same_field_get[OF deserialize_images_frame[OF assms(3), of "''location''"]] by simp
  then have "get_prop v0 ''location'' = Inr loc"
    using same_field_get[OF deserialize_id_frame[OF assms(2), of "''location''"]] by simp
  then have l0: "get_prop (contents h) ''location'' = Inr loc"
    using snapshot_contents[OF assms(1)] by simp
  from deserialize_coordinates_location[OF assms(4) l2]
  obtain loc3 where l3: "get_prop v3 ''location'' = Inr loc3"
    and "loc3 = loc \<or> (\<exists>x. loc3 = set_prop loc ''coordinates'' x)" by auto
  then have "same_field ''country'' loc loc3" "same_field ''city'' loc loc3"
    by (auto intro: same_field_set)
  then show ?thesis using l0 l3 by (auto simp add: same_field_def)
qed

lemma deserialize_cityConf_arguments:
  assumes "get_prop v3 ''location'' = Inr loc3"
    and "get_prop loc3 ''country'' = Inr country" "get_prop loc3 ''city'' = Inr city"
  shows "deserialize_cityConf g v3 = g country city"
  using assms by (simp add: deserialize_cityConf_def bind_err_def)

lemma deserialize_lookup_returned:
  assumes "deserialize g caps h = Inr view"
  shows "\<exists>loc country city cc. get_prop (contents h) ''location'' = Inr loc \<and>
           get_prop loc ''country'' = Inr country \<and> get_prop loc ''city'' = Inr city \<and>
           g country city = Inr cc"
proof -
  from assms obtain v0 v1 v2 v3 cc where s: "snapshot h = Inr v0"
    "deserialize_id v0 = Inr v1" "deserialize_images v1 = Inr v2"
    "deserialize_coordinates v2 = Inr v3" "deserialize_cityConf g v3 = Inr cc"
    by (rule deserialize_steps)
  from lookup_arguments[OF s(1-4)] obtain loc loc3
    where l: "get_prop (contents h) ''location'' = Inr loc" "get_prop v3 ''location'' = Inr loc3"
      "get_prop loc3 ''country'' = get_prop loc ''country''"
      "get_prop loc3 ''city'' = get_prop loc ''city''" by blast
  from s(5) l(2) obtain country city where c: "get_prop loc3 ''country'' = Inr country"
      "get_prop loc3 ''city'' = Inr city"
    by (auto simp add: deserialize_cityConf_def bind_err_def split: sum.splits)
  have "g country city = Inr cc"
    using deserialize_cityConf_arguments[OF l(2) c, of g] s(5) by simp
  moreover have "get_prop loc ''country'' = Inr country" "get_prop loc ''city'' = Inr city"
    using l(3,4) c by simp_all
  ultimately show ?thesis using l(1) by blast
qed

lemma deserialize_lookup_thrown:
  assumes "get_prop (contents h) ''location'' = Inr loc"
    and "get_prop loc ''country'' = Inr country" "get_prop loc ''city'' = Inr city"
    and "g country city = Inl e"
  shows "(snapshot h = Inr v0 \<and> deserialize_id v0 = Inr v1 \<and> deserialize_images v1 = Inr v2 \<and>
          deserialize_coordinates v2 = Inr v3 \<longrightarrow> deserialize g caps h = Inl e) \<and>
         (deserialize g caps h = Inl e \<or> deserialize g caps h = Inl TypeError)"
proof -
  have run: "deserialize g caps h = Inl e"
    if s: "snapshot h = Inr w0" "deserialize_id w0 = Inr w1" "deserialize_images w1 = Inr w2"
      "deserialize_coordinates w2 = Inr w3" for w0 w1 w2 w3
  proof -
    from lookup_arguments[OF s] assms(1) obtain loc3
      where l: "get_prop w3 ''location'' = Inr loc3"
        "get_prop loc3 ''country'' = get_prop loc ''country''"
        "get_prop loc3 ''city'' = get_prop loc ''city''" by auto
    have "deserialize_cityConf g w3 = Inl e"
      using deserialize_cityConf_arguments[OF l(1), of country city g] l(2,3) assms(2-4) by simp
    then show ?thesis using s by (simp add: deserialize_def bind_err_def)
  qed
  have "deserialize g caps h = Inl e \<or> deserialize g caps h = Inl TypeError"
  proof (cases "snapshot h")
    case (Inl e')
    then show ?thesis using snapshot_TypeError[OF Inl] by (simp add: deserialize_def bind_err_def)
  next
    case w0: (Inr w0)
    show ?thesis
    proof (cases "deserialize_id w0")
      case (Inl e')
      then show ?thesis using deserialize_id_TypeError[OF Inl] w0
        by (simp add: deserialize_def bind_err_def)
    next
      case w1: (Inr w1)
      show ?thesis
      proof (cases "deserialize_images w1")
        case (Inl e')
        then show ?thesis using deserialize_images_TypeError[OF Inl] w0 w1
          by (simp add: deserialize_def bind_err_def)
      next
        case w2: (Inr w2)
        show ?thesis
        proof (cases "deserialize_coordinates w2")
          case (Inl e')
          then show ?thesis using deserialize_coordinates_TypeError[OF Inl] w0 w1 w2
            by (simp add: deserialize_def bind_err_def)
        next
          case w3: (Inr w3)
          show ?thesis using run[OF w0 w1 w2 w3] by simp
        qed
      qed
    qed
  qed
  then show ?thesis using run by blast
qed

text \<open>
  C10.  \<open>deserialize\<close> dereferences \<open>venue.location\<close> on every call: for every document
  whose \<open>location\<close> is missing (or \<open>null\<close>) it throws a \<open>TypeError\<close>.  It resolves the city
  configuration for the location's country and city on every call, whatever else the
  venue has: a call that returns a view has had the lookup return, and when the lookup
  throws, \<open>deserialize\<close> returns no view; it throws the lookup's exception as soon as the
  blocks before the lookup have passed.
\<close>

theorem deserialize_needs_location:
  "(get_prop (contents h) ''location'' = Inr Undefined \<or>
    get_prop (contents h) ''location'' = Inr Null \<longrightarrow> deserialize g caps h = Inl TypeError) \<and>
   (deserialize g caps h = Inr view \<longrightarrow>
      (\<exists>loc country city cc. get_prop (contents h) ''location'' = Inr loc \<and>
         get_prop loc ''country'' = Inr country \<and> get_prop loc ''city'' = Inr city \<and>
         g country city = Inr cc)) \<and>
   (get_prop (contents h) ''location'' = Inr loc \<and> get_prop loc ''country'' = Inr country \<and>
    get_prop loc ''city'' = Inr city \<and> g country city = Inl e \<longrightarrow>
      (deserialize g caps h = Inl e \<or> deserialize g caps h = Inl TypeError) \<and>
      (snapshot h = Inr v0 \<and> deserialize_id v0 = Inr v1 \<and> deserialize_images v1 = Inr v2 \<and>
       deserialize_coordinates v2 = Inr v3 \<longrightarrow> deserialize g caps h = Inl e))"
  using deserialize_no_location[of h Undefined g caps] deserialize_no_location[of h Null g caps]
    deserialize_lookup_returned[of g caps h view]
    deserialize_lookup_thrown[of h loc country city g e v0 v1 v2 v3 caps]
  by blast

theorem deserialize_needs_location_witness:
  "deserialize sample_get [0, 50, 100] (Plain (Obj [(''_id'', Str ''a1''), (''name'', Str ''V'')]))
     = Inl TypeError \<and>
   deserialize failing_get [0, 50, 100]
     (Plain (Obj [(''_id'', Str ''a1''), (''name'', Str ''V''),
                  (''images'', Arr [Obj [(''_id'', Str ''i1'')]]),
                  (''location'', Obj [(''country'', Str ''DK''), (''city'', Str ''Odense''),
                     (''coordinates'', Obj [(''type'', Str ''Point''),
                                           (''coordinates'', Arr [Num 10, Num 55])])])]))
     = Inl ConfigError \<and>
   deserialize sample_get [0, 50, 100]
     (Plain (Obj [(''_id'', Str ''a1''), (''name'', Str ''V''),
                  (''location'', Obj [(''country'', Str ''DK''), (''city'', Str ''Odense'')])]))
     = Inr (Obj [(''name'', Str ''V''),
                 (''location'', Obj [(''country'', Str ''DK''), (''city'', Str ''Odense'')]),
                 (''id'', Str ''a1'')])"
  using deserialize_needs_location[where
      h = "Plain (Obj [(''_id'', Str ''a1''), (''name'', Str ''V'')])"
      and g = sample_get and caps = "[0, 50, 100]"]
    deserialize_needs_location[where
      h = "Plain (Obj [(''_id'', Str ''a1''), (''name'', Str ''V''),
                  (''images'', Arr [Obj [(''_id'', Str ''i1'')]]),
                  (''location'', Obj [(''country'', Str ''DK''), (''city'', Str ''Odense''),
                     (''coordinates'', Obj [(''type'', Str ''Point''),
                                           (''coordinates'', Arr [Num 10, Num 55])])])])"
      and loc = "Obj [(''country'', Str ''DK''), (''city'', Str ''Odense''),
                     (''coordinates'', Obj [(''type'', Str ''Point''),
                                           (''coordinates'', Arr [Num 10, Num 55])])]"
      and country = "Str ''DK''" and city = "Str ''Odense''"
      and g = failing_get and e = ConfigError and caps = "[0, 50, 100]"]
    deserialize_needs_location[where
      h = "Plain (Obj [(''_id'', Str ''a1''), (''name'', Str ''V''),
                  (''location'', Obj [(''country'', Str ''DK''), (''city'', Str ''Odense'')])])"
      and g = sample_get and caps = "[0, 50, 100]"
      and view = "Obj [(''name'', Str ''V''),
                 (''location'', Obj [(''country'', Str ''DK''), (''city'', Str ''Odense'')]),
                 (''id'', Str ''a1'')]"]
  by (simp add: failing_get_def deserialize_eval serialize_eval)

section \<open>Which objects a call changes\<close>

lemma fresh_mono: "m \<le> n \<Longrightarrow> fresh n v \<Longrightarrow> fresh m v"
  by (cases v) auto

lemma kept_refl: "kept H H"
  by (simp add: kept_def)

lemma kept_length:
  assumes "kept H0 H"
  shows "length H0 \<le> length H"
proof -
  have "take (length H0) H = H0" using assms by (simp add: kept_def)
  then have "length (take (length H0) H) = length H0" by (simp only:)
  then show ?thesis by simp
qed

lemma kept_trans:
  assumes "kept H0 H" "kept H H'"
  shows "kept H0 H'"
proof -
  let ?n = "length H0"
  have n: "?n \<le> length H" by (rule kept_length[OF assms(1)])
  have t: "take (length H) H' = H" using assms(2) by (simp add: kept_def)
  have "take ?n H' = take ?n (take (length H) H')" using n by (simp add: min_def)
  then have 1: "take ?n H' = H0" using t assms(1) by (simp add: kept_def)
  have "take (length H) H' @ drop (length H) H' = H'" by (rule append_take_drop_id)
  then have "H' = H @ drop (length H) H'" by (simp only: t)
  then have "drop ?n H' = drop ?n (H @ drop (length H) H')" by (rule arg_cong)
  then have "drop ?n H' = drop ?n H @ drop (length H) H'"
    using n by simp
  moreover have "list_all (\<lambda>c. list_all (fresh ?n) (cell_values c)) (drop (length H) H')"
    using assms(2) n by (auto simp add: kept_def list_all_iff intro: fresh_mono)
  ultimately show ?thesis using 1 assms(1) by (simp add: kept_def)
qed

lemma kept_cell:
  assumes "kept H0 H" "length H0 \<le> a" "a < length H"
  shows "list_all (fresh (length H0)) (cell_values (H ! a))"
proof -
  have "a - length H0 < length (drop (length H0) H)" using assms(2,3) by simp
  then have "drop (length H0) H ! (a - length H0) \<in> set (drop (length H0) H)" by (rule nth_mem)
  moreover have "drop (length H0) H ! (a - length H0) = H ! a" using assms(2,3) by simp
  ultimately have "H ! a \<in> set (drop (length H0) H)" by simp
  then show ?thesis using assms(1) by (simp add: kept_def list_all_iff)
qed

lemma fields_values: "map_of (fields c) k = Some x \<Longrightarrow> x \<in> set (cell_values c)"
  by (cases c) (auto dest: map_of_SomeD intro: rev_image_eqI)

lemma hget_fresh:
  assumes "kept H0 H" "fresh (length H0) v" "hget H v k = Inr x"
  shows "fresh (length H0) x"
proof (cases v)
  case (Ref a)
  then have a: "length H0 \<le> a" "a < length H" using assms(2,3) by (auto split: if_splits)
  show ?thesis
  proof (cases "map_of (fields (H ! a)) k")
    case None
    then show ?thesis using assms(3) Ref a by simp
  next
    case (Some y)
    then have "x = y" using assms(3) Ref a by simp
    then show ?thesis using fields_values[OF Some] kept_cell[OF assms(1) a]
      by (simp add: list_all_iff)
  qed
qed (use assms(3) in auto)

lemma hindex_fresh:
  assumes "kept H0 H" "fresh (length H0) v" "hindex H v i = Inr x"
  shows "fresh (length H0) x"
proof (cases v)
  case (Ref a)
  then have a: "length H0 \<le> a" "a < length H" using assms(2,3) by (auto split: if_splits)
  note c = kept_cell[OF assms(1) a]
  show ?thesis
  proof (cases "H ! a")
    case (HArr xs)
    then show ?thesis using assms(3) Ref a c by (auto simp add: list_all_length split: if_splits)
  next
    case (HObj fs)
    then show ?thesis using assms(3) Ref a c fields_values[of "H ! a" "index_key i"]
      by (cases "map_of fs (index_key i)") (auto simp add: list_all_iff simp del: index_key.simps)
  next
    case (HDoc fs)
    then show ?thesis using assms(3) Ref a c fields_values[of "H ! a" "index_key i"]
      by (cases "map_of fs (index_key i)") (auto simp add: list_all_iff simp del: index_key.simps)
  qed
qed (use assms(3) in \<open>auto split: if_splits\<close>)

lemma kept_update:
  assumes "kept H0 H" "length H0 \<le> a" "list_all (fresh (length H0)) (cell_values c)"
  shows "kept H0 (H[a := c])"
proof -
  have "drop (length H0) (H[a := c]) = (drop (length H0) H)[a - length H0 := c]"
    using assms(2) by (simp add: drop_update_swap)
  moreover have "list_all P (xs[i := y])" if "list_all P xs" "P y" for P xs i and y :: cell
    using that set_update_subset_insert[of xs i y] by (auto simp add: list_all_iff)
  ultimately show ?thesis using assms by (simp add: kept_def)
qed

lemma values_update:
  "set (cell_values (with_fields c (AList.update k x (fields c)))) \<subseteq> insert x (set (cell_values c))"
proof -
  have "set (map snd (AList.update k x fs)) \<subseteq> insert x (set (map snd fs))" for fs
    by (induction fs) auto
  then show ?thesis by (cases c) auto
qed

lemma values_delete:
  "set (cell_values (with_fields c (AList.delete k (fields c)))) \<subseteq> set (cell_values c)"
  by (cases c) (auto simp add: AList.delete_eq)

lemma hset_kept:
  assumes "kept H0 H" "fresh (length H0) v" "fresh (length H0) x"
  shows "kept H0 (hset H v k x)"
proof (cases v)
  case (Ref a)
  show ?thesis
  proof (cases "a < length H")
    case True
    have "list_all (fresh (length H0))
            (cell_values (with_fields (H ! a) (AList.update k x (fields (H ! a)))))"
      using values_update[of "H ! a" k x] kept_cell[OF assms(1) _ True] assms(2,3) Ref
      by (auto simp add: list_all_iff)
    then show ?thesis using kept_update[OF assms(1)] assms(2) Ref True by simp
  qed (use assms(1) Ref in simp)
qed (use assms(1) in auto)

lemma hdelete_kept:
  assumes "kept H0 H" "fresh (length H0) v"
  shows "kept H0 (hdelete H v k)"
proof (cases v)
  case (Ref a)
  show ?thesis
  proof (cases "a < length H")
    case True
    have "list_all (fresh (length H0))
            (cell_values (with_fields (H ! a) (AList.delete k (fields (H ! a)))))"
      using values_delete[of "H ! a" k] kept_cell[OF assms(1) _ True] assms(2) Ref
      by (auto simp add: list_all_iff)
    then show ?thesis using kept_update[OF assms(1)] assms(2) Ref True by simp
  qed (use assms(1) Ref in simp)
qed (use assms(1) in auto)

lemma alloc_kept:
  assumes "kept H0 H" "list_all (fresh (length H0)) (cell_values c)" "alloc H c = (H', r)"
  shows "kept H0 H' \<and> fresh (length H0) r"
proof -
  have "length H0 \<le> length H" by (rule kept_length[OF assms(1)])
  then show ?thesis using assms by (auto simp add: alloc_def kept_def)
qed

lemma inject_kept:
  "kept H0 H \<Longrightarrow> inject H j = (H', v) \<Longrightarrow> kept H0 H' \<and> fresh (length H0) v"
  "kept H0 H \<Longrightarrow> inject_list H js = (H', vs) \<Longrightarrow> kept H0 H' \<and> list_all (fresh (length H0)) vs"
  "kept H0 H \<Longrightarrow> inject_fields H kvs = (H', fs)
     \<Longrightarrow> kept H0 H' \<and> list_all (fresh (length H0)) (map snd fs)"
proof (induction H j and H js and H kvs arbitrary: H' v and H' vs and H' fs
    rule: inject_inject_list_inject_fields.induct)
  case (9 H xs)
  obtain H1 ws where i: "inject_list H xs = (H1, ws)" by (cases "inject_list H xs")
  from "9.IH"[OF "9.prems"(1) i] have "kept H0 H1" "list_all (fresh (length H0)) ws" by auto
  then show ?case using alloc_kept[of H0 H1 "HArr ws" H' v] "9.prems"(2) i by simp
next
  case (10 H kvs)
  obtain H1 gs where i: "inject_fields H kvs = (H1, gs)" by (cases "inject_fields H kvs")
  from "10.IH"[OF "10.prems"(1) i] have "kept H0 H1" "list_all (fresh (length H0)) (map snd gs)"
    by auto
  then show ?case using alloc_kept[of H0 H1 "HObj gs" H' v] "10.prems"(2) i by simp
next
  case (12 H x xs)
  obtain H1 w where i: "inject H x = (H1, w)" by (cases "inject H x")
  obtain H2 ws where j: "inject_list H1 xs = (H2, ws)" by (cases "inject_list H1 xs")
  from "12.IH"(1)[OF "12.prems"(1) i] have k1: "kept H0 H1" "fresh (length H0) w" by auto
  from "12.IH"(2)[OF i[symmetric] k1(1) j] k1(2) "12.prems"(2) i j show ?case by auto
next
  case (14 H kv kvs)
  obtain H1 w where i: "inject H (snd kv) = (H1, w)" by (cases "inject H (snd kv)")
  obtain H2 gs where j: "inject_fields H1 kvs = (H2, gs)" by (cases "inject_fields H1 kvs")
  from "14.IH"(1)[OF "14.prems"(1) i] have k1: "kept H0 H1" "fresh (length H0) w" by auto
  from "14.IH"(2)[OF i[symmetric] k1(1) j] k1(2) "14.prems"(2) i j show ?case by auto
qed auto

lemma copy_kept:
  assumes "independent_copy f" "kept H0 H" "f H v = (H', v')"
  shows "kept H0 H' \<and> fresh (length H0) v'"
proof -
  from assms(1,3) have "kept H H'" "fresh (length H) v'"
    by (auto simp add: independent_copy_def split: prod.splits)
  then show ?thesis using kept_trans[OF assms(2)] fresh_mono[OF kept_length[OF assms(2)]] by blast
qed

lemma hbind_kept:
  assumes "kept H0 (fst m)"
    and "\<And>H1 x. m = (H1, Inr x) \<Longrightarrow> kept H0 H1 \<Longrightarrow> kept H0 (fst (f H1 x))"
  shows "kept H0 (fst (hbind m f))"
  using assms by (cases m) (auto simp add: hbind_def split: sum.splits)

lemma snapshot_kept:
  assumes "independent_copy cloneDeep" "independent_copy toObject" "kept H0 H"
    and "snapshot_h cloneDeep toObject H v = (H', r)"
  shows "kept H0 H' \<and> (\<forall>x. r = Inr x \<longrightarrow> fresh (length H0) x)"
proof (cases "hget H v ''toObject''")
  case (Inl e)
  then show ?thesis using assms(3,4) by (auto simp add: snapshot_h_def)
next
  case (Inr t)
  show ?thesis
  proof (cases "is_live H v")
    case True
    obtain H1 x where c: "toObject H v = (H1, x)" by (cases "toObject H v")
    from copy_kept[OF assms(2,3) c] show ?thesis
      using assms(4) Inr True c by (auto simp add: snapshot_h_def)
  next
    case False
    obtain H1 x where c: "cloneDeep H v = (H1, x)" by (cases "cloneDeep H v")
    from copy_kept[OF assms(1,3) c] show ?thesis
      using assms(3,4) Inr False c by (auto simp add: snapshot_h_def split: if_splits)
  qed
qed

lemma deserializeImage_kept:
  assumes "independent_copy cloneDeep" "independent_copy toObject" "kept H0 H"
    and "deserializeImage_h cloneDeep toObject H v = (H', r)"
  shows "kept H0 H' \<and> (\<forall>x. r = Inr x \<longrightarrow> fresh (length H0) x)"
proof -
  obtain H1 r1 where s: "snapshot_h cloneDeep toObject H v = (H1, r1)"
    by (cases "snapshot_h cloneDeep toObject H v")
  note k1 = snapshot_kept[OF assms(1-3) s]
  show ?thesis
  proof (cases r1)
    case (Inl e)
    then show ?thesis using assms(4) s k1 by (auto simp add: deserializeImage_h_def hbind_def)
  next
    case (Inr img)
    then have f: "fresh (length H0) img" and k: "kept H0 H1" using k1 by auto
    show ?thesis
    proof (cases "hget H1 img ''_id''")
      case (Inl e)
      then show ?thesis using assms(4) s Inr k by (auto simp add: deserializeImage_h_def hbind_def)
    next
      case i: (Inr i)
      have "fresh (length H0) i" by (rule hget_fresh[OF k f i])
      then have "kept H0 (hdelete (hset H1 img ''id'' i) img ''_id'')"
        using k f by (intro hdelete_kept hset_kept)
      then show ?thesis using assms(4) s Inr i f
        by (auto simp add: deserializeImage_h_def hbind_def)
    qed
  qed
qed

lemma map_from_kept:
  assumes "\<And>H v H' r. kept H0 H \<Longrightarrow> f H v = (H', r)
             \<Longrightarrow> kept H0 H' \<and> (\<forall>x. r = Inr x \<longrightarrow> fresh (length H0) x)"
    and "kept H0 H" "map_from f H arr i m = (H', r)"
  shows "kept H0 H' \<and> (\<forall>ys. r = Inr ys \<longrightarrow> list_all (fresh (length H0)) ys)"
  using assms(2,3)
proof (induction m arbitrary: H i H' r)
  case 0
  then show ?case by auto
next
  case (Suc m)
  show ?case
  proof (cases "hindex H arr i")
    case (Inl e)
    then show ?thesis using Suc.prems by auto
  next
    case (Inr x)
    obtain H1 r1 where f1: "f H x = (H1, r1)" by (cases "f H x")
    note k1 = assms(1)[OF Suc.prems(1) f1]
    show ?thesis
    proof (cases r1)
      case (Inl e)
      then show ?thesis using Suc.prems(2) Inr f1 k1 by (auto simp add: hbind_def)
    next
      case y: (Inr y)
      obtain H2 r2 where m2: "map_from f H1 arr (Suc i) m = (H2, r2)"
        by (cases "map_from f H1 arr (Suc i) m")
      from Suc.IH[OF _ m2] k1 have k2: "kept H0 H2"
        "\<forall>ys. r2 = Inr ys \<longrightarrow> list_all (fresh (length H0)) ys" by auto
      show ?thesis using Suc.prems(2) Inr f1 y m2 k1 k2
        by (cases r2) (auto simp add: hbind_def)
    qed
  qed
qed

lemma deserialize_id_kept:
  assumes "kept H0 H" "fresh (length H0) venue"
  shows "kept H0 (fst (deserialize_id_h H venue))"
proof (cases "hget H venue ''_id''")
  case (Inl e)
  then show ?thesis using assms(1) by (simp add: deserialize_id_h_def)
next
  case (Inr i)
  have "fresh (length H0) i" by (rule hget_fresh[OF assms Inr])
  then show ?thesis using assms Inr
    by (simp add: deserialize_id_h_def hdelete_kept hset_kept)
qed

lemma deserialize_images_kept:
  assumes "independent_copy cloneDeep" "independent_copy toObject"
    and "kept H0 H" "fresh (length H0) venue"
  shows "kept H0 (fst (deserialize_images_h cloneDeep toObject H venue))"
proof (cases "hget H venue ''images''")
  case (Inl e)
  then show ?thesis using assms(3) by (simp add: deserialize_images_h_def)
next
  case (Inr images)
  show ?thesis
  proof (cases "htruthy images")
    case False
    then show ?thesis using assms(3) Inr by (simp add: deserialize_images_h_def)
  next
    case True
    show ?thesis
    proof (cases "array_length H images")
      case None
      then show ?thesis using assms(3) Inr True by (simp add: deserialize_images_h_def)
    next
      case (Some n)
      obtain H1 r1 where m: "map_from (deserializeImage_h cloneDeep toObject) H images 0 n = (H1, r1)"
        by (cases "map_from (deserializeImage_h cloneDeep toObject) H images 0 n")
      from map_from_kept[OF deserializeImage_kept[OF assms(1,2)] assms(3) m]
      have k1: "kept H0 H1" "\<forall>ys. r1 = Inr ys \<longrightarrow> list_all (fresh (length H0)) ys" by auto
      show ?thesis
      proof (cases r1)
        case (Inl e)
        then show ?thesis using Inr True Some m k1
          by (simp add: deserialize_images_h_def hbind_def)
      next
        case ys: (Inr ys)
        obtain H2 arr where a: "alloc H1 (HArr ys) = (H2, arr)" by (cases "alloc H1 (HArr ys)")
        from alloc_kept[OF k1(1) _ a] k1(2) ys have "kept H0 H2" "fresh (length H0) arr" by auto
        then have "kept H0 (hset H2 venue ''images'' arr)" using assms(4) by (intro hset_kept)
        then show ?thesis using Inr True Some m ys a
          by (simp add: deserialize_images_h_def hbind_def)
      qed
    qed
  qed
qed

lemma deserialize_coordinates_kept:
  assumes "kept H0 H" "fresh (length H0) venue"
  shows "kept H0 (fst (deserialize_coordinates_h H venue))"
proof -
  let ?q = "bind_err (hget H venue ''location'') (\<lambda>location.
           bind_err (hget H location ''coordinates'') (\<lambda>coordinates.
             if htruthy coordinates
             then bind_err (hget H coordinates ''coordinates'') (\<lambda>pair.
                  bind_err (hindex H pair 0) (\<lambda>longitude.
                  bind_err (hindex H pair 1) (\<lambda>latitude.
                    Inr (Some (location, longitude, latitude)))))
             else Inr None))"
  show ?thesis
  proof (cases ?q)
    case (Inl e)
    then show ?thesis using assms(1) by (simp add: deserialize_coordinates_h_def)
  next
    case (Inr res)
    show ?thesis
    proof (cases res)
      case None
      then show ?thesis using assms(1) Inr by (simp add: deserialize_coordinates_h_def)
    next
      case (Some t)
      obtain location longitude latitude where t: "t = (location, longitude, latitude)"
        by (cases t)
      from Inr Some t obtain coordinates pair where
        r: "hget H venue ''location'' = Inr location"
          "hget H location ''coordinates'' = Inr coordinates"
          "hget H coordinates ''coordinates'' = Inr pair"
          "hindex H pair 0 = Inr longitude" "hindex H pair 1 = Inr latitude"
        by (auto simp add: bind_err_def split: sum.splits if_splits)
      have f1: "fresh (length H0) location" by (rule hget_fresh[OF assms r(1)])
      have f2: "fresh (length H0) coordinates" by (rule hget_fresh[OF assms(1) f1 r(2)])
      have f3: "fresh (length H0) pair" by (rule hget_fresh[OF assms(1) f2 r(3)])
      have f4: "fresh (length H0) longitude" "fresh (length H0) latitude"
        using hindex_fresh[OF assms(1) f3] r(4,5) by auto
      obtain H1 point where a: "alloc H (HObj [(''longitude'', longitude), (''latitude'', latitude)])
          = (H1, point)"
        by (cases "alloc H (HObj [(''longitude'', longitude), (''latitude'', latitude)])")
      from alloc_kept[OF assms(1) _ a] f4 have "kept H0 H1" "fresh (length H0) point" by auto
      then have "kept H0 (hset H1 location ''coordinates'' point)" using f1 by (intro hset_kept)
      then show ?thesis using Inr Some t a by (simp add: deserialize_coordinates_h_def)
    qed
  qed
qed

lemma deserialize_capacity_kept:
  assumes "kept H0 H" "fresh (length H0) venue"
  shows "kept H0 (fst (deserialize_capacity_h caps H venue))"
proof (cases "hget H venue ''capacity''")
  case (Inl e)
  then show ?thesis using assms(1) by (simp add: deserialize_capacity_h_def)
next
  case (Inr capacity)
  show ?thesis
  proof (cases "htruthy capacity \<and> (\<exists>r. getCapacityRange_h caps H venue = Inr r)")
    case False
    then show ?thesis using assms(1) Inr
      by (auto simp add: deserialize_capacity_h_def split: sum.splits)
  next
    case True
    then obtain r where r: "getCapacityRange_h caps H venue = Inr r" by blast
    obtain H1 v where i: "inject H r = (H1, v)" by (cases "inject H r")
    from inject_kept(1)[OF assms(1) i] have "kept H0 (hset H1 venue ''capacityRange'' v)"
      using assms(2) by (intro hset_kept) auto
    then show ?thesis using Inr True r i by (simp add: deserialize_capacity_h_def)
  qed
qed

lemma deserialize_fees_kept:
  assumes "kept H0 H" "fresh (length H0) venue"
  shows "kept H0 (fst (deserialize_fees_h cityConf H venue))"
proof (cases "hget H venue ''fees''")
  case (Inl e)
  then show ?thesis using assms(1) by (simp add: deserialize_fees_h_def)
next
  case (Inr fees)
  show ?thesis
  proof (cases "htruthy fees")
    case False
    then show ?thesis using assms(1) Inr by (simp add: deserialize_fees_h_def)
  next
    case True
    show ?thesis
    proof (cases cityConf)
      case None
      then show ?thesis using assms(1) Inr True by (simp add: deserialize_fees_h_def)
    next
      case (Some c)
      obtain H1 cur where i: "inject H (currency c) = (H1, cur)" by (cases "inject H (currency c)")
      define H2 where "H2 = hset H1 venue ''currency'' cur"
      from inject_kept(1)[OF assms(1) i] have k2: "kept H0 H2"
        unfolding H2_def using assms(2) by (intro hset_kept) auto
      have fin: "kept H0 (hset H3 venue ''entranceFeeRange'' v)" if "inject H2 r = (H3, v)" for r H3 v
        using inject_kept(1)[OF k2 that] assms(2) by (intro hset_kept) auto
      show ?thesis using Inr True Some i k2 fin
        by (auto simp add: deserialize_fees_h_def H2_def[symmetric] Let_def
            split: sum.splits prod.splits)
    qed
  qed
qed

lemma deserialize_h_kept:
  assumes "independent_copy cloneDeep" "independent_copy toObject"
  shows "kept H (fst (deserialize_h cloneDeep toObject g caps H venue0))"
  unfolding deserialize_h_def
proof (rule hbind_kept)
  show "kept H (fst (snapshot_h cloneDeep toObject H venue0))"
    using snapshot_kept[OF assms kept_refl, of H venue0] by (cases "snapshot_h cloneDeep toObject H venue0") auto
next
  fix H1 venue
  assume s: "snapshot_h cloneDeep toObject H venue0 = (H1, Inr venue)" and k1: "kept H H1"
  have f: "fresh (length H) venue" using snapshot_kept[OF assms kept_refl s] by simp
  show "kept H (fst (hbind (deserialize_id_h H1 venue) (\<lambda>H2 _.
       hbind (deserialize_images_h cloneDeep toObject H2 venue) (\<lambda>H3 _.
       hbind (deserialize_coordinates_h H3 venue) (\<lambda>H4 _.
       hbind (H4, deserialize_cityConf_h g H4 venue) (\<lambda>H5 cityConf.
       hbind (deserialize_capacity_h caps H5 venue) (\<lambda>H6 _.
       hbind (deserialize_fees_h cityConf H6 venue) (\<lambda>H7 _. (H7, Inr venue)))))))))"
  proof (rule hbind_kept)
    show "kept H (fst (deserialize_id_h H1 venue))" by (rule deserialize_id_kept[OF k1 f])
  next
    fix H2 u assume k2: "kept H H2"
    show "kept H (fst (hbind (deserialize_images_h cloneDeep toObject H2 venue) (\<lambda>H3 _.
       hbind (deserialize_coordinates_h H3 venue) (\<lambda>H4 _.
       hbind (H4, deserialize_cityConf_h g H4 venue) (\<lambda>H5 cityConf.
       hbind (deserialize_capacity_h caps H5 venue) (\<lambda>H6 _.
       hbind (deserialize_fees_h cityConf H6 venue) (\<lambda>H7 _. (H7, Inr venue))))))))"
    proof (rule hbind_kept)
      show "kept H (fst (deserialize_images_h cloneDeep toObject H2 venue))"
        by (rule deserialize_images_kept[OF assms k2 f])
    next
      fix H3 u assume k3: "kept H H3"
      show "kept H (fst (hbind (deserialize_coordinates_h H3 venue) (\<lambda>H4 _.
       hbind (H4, deserialize_cityConf_h g H4 venue) (\<lambda>H5 cityConf.
       hbind (deserialize_capacity_h caps H5 venue) (\<lambda>H6 _.
       hbind (deserialize_fees_h cityConf H6 venue) (\<lambda>H7 _. (H7, Inr venue)))))))"
      proof (rule hbind_kept)
        show "kept H (fst (deserialize_coordinates_h H3 venue))"
          by (rule deserialize_coordinates_kept[OF k3 f])
      next
        fix H4 u assume k4: "kept H H4"
        show "kept H (fst (hbind (H4, deserialize_cityConf_h g H4 venue) (\<lambda>H5 cityConf.
       hbind (deserialize_capacity_h caps H5 venue) (\<lambda>H6 _.
       hbind (deserialize_fees_h cityConf H6 venue) (\<lambda>H7 _. (H7, Inr venue))))))"
        proof (rule hbind_kept)
          show "kept H (fst (H4, deserialize_cityConf_h g H4 venue))" using k4 by simp
        next
          fix H5 cityConf assume k5: "kept H H5"
          show "kept H (fst (hbind (deserialize_capacity_h caps H5 venue) (\<lambda>H6 _.
       hbind (deserialize_fees_h cityConf H6 venue) (\<lambda>H7 _. (H7, Inr venue)))))"
          proof (rule hbind_kept)
            show "kept H (fst (deserialize_capacity_h caps H5 venue))"
              by (rule deserialize_capacity_kept[OF k5 f])
          next
            fix H6 u assume k6: "kept H H6"
            show "kept H (fst (hbind (deserialize_fees_h cityConf H6 venue)
                                 (\<lambda>H7 _. (H7, Inr venue))))"
            proof (rule hbind_kept)
              show "kept H (fst (deserialize_fees_h cityConf H6 venue))"
                by (rule deserialize_fees_kept[OF k6 f])
            qed simp
          qed
        qed
      qed
    qed
  qed
qed

lemma deserialize_h_result:
  assumes "independent_copy cloneDeep" "independent_copy toObject"
    and "deserialize_h cloneDeep toObject g caps H venue0 = (H', Inr w)"
  shows "fresh (length H) w"
proof -
  obtain H1 r1 where s: "snapshot_h cloneDeep toObject H venue0 = (H1, r1)"
    by (cases "snapshot_h cloneDeep toObject H venue0")
  from assms(3) s obtain venue where r1: "r1 = Inr venue"
    by (cases r1) (auto simp add: deserialize_h_def hbind_def)
  have "w = venue" using assms(3) s r1
    by (auto simp add: deserialize_h_def hbind_def split: sum.splits prod.splits)
  then show ?thesis using snapshot_kept[OF assms(1,2) kept_refl s] r1 by simp
qed

lemma changed_only_refl: "changed_only S H H"
  by (simp add: changed_only_def)

lemma changed_only_trans:
  "changed_only S H H1 \<Longrightarrow> changed_only S H1 H2 \<Longrightarrow> changed_only S H H2"
  by (auto simp add: changed_only_def)

lemma changed_only_mono: "changed_only S H H' \<Longrightarrow> S \<subseteq> T \<Longrightarrow> changed_only T H H'"
  by (auto simp add: changed_only_def)

lemma hset_changed: "changed_only (address v) H (hset H v k x)"
  by (cases v) (auto simp add: changed_only_def)

lemma hdelete_changed: "changed_only (address v) H (hdelete H v k)"
  by (cases v) (auto simp add: changed_only_def)

lemma kept_nth:
  assumes "kept H H'" "a < length H"
  shows "H' ! a = H ! a"
proof -
  have "take (length H) H' ! a = H' ! a" using assms(2) by simp
  then show ?thesis using assms(1) by (simp add: kept_def)
qed

lemma kept_changed: "kept H H' \<Longrightarrow> changed_only S H H'"
  using kept_length kept_nth by (auto simp add: changed_only_def)

lemma alloc_changed: "alloc H c = (H', r) \<Longrightarrow> changed_only S H H'"
  by (auto simp add: alloc_def changed_only_def nth_append)

lemma inject_kept_self: "inject H j = (H', v) \<Longrightarrow> kept H H'"
  using inject_kept(1)[OF kept_refl] by blast

lemma hget_hset_other: "k' \<noteq> k \<Longrightarrow> hget (hset H v k x) w k' = hget H w k'"
proof (cases v)
  case (Ref a)
  assume k: "k' \<noteq> k"
  show ?thesis
  proof (cases w)
    case w: (Ref b)
    show ?thesis
    proof (cases "a < length H \<and> b = a")
      case True
      then show ?thesis using Ref w k by (cases "H ! a") (auto simp add: update_conv')
    next
      case False
      then show ?thesis using Ref w by auto
    qed
  qed auto
qed auto

lemma hget_hdelete_other: "k' \<noteq> k \<Longrightarrow> hget (hdelete H v k) w k' = hget H w k'"
proof (cases v)
  case (Ref a)
  assume k: "k' \<noteq> k"
  show ?thesis
  proof (cases w)
    case w: (Ref b)
    show ?thesis
    proof (cases "a < length H \<and> b = a")
      case True
      then show ?thesis using Ref w k by (cases "H ! a") (auto simp add: delete_conv')
    next
      case False
      then show ?thesis using Ref w by auto
    qed
  qed auto
qed auto

lemma hget_kept:
  assumes "kept H H'" "hget H w k = Inr y"
  shows "hget H' w k = Inr y"
proof (cases w)
  case (Ref a)
  then have a: "a < length H" using assms(2) by (auto split: if_splits)
  then have "a < length H'" using kept_length[OF assms(1)] by simp
  then show ?thesis using assms(2) Ref a kept_nth[OF assms(1) a] by simp
qed (use assms(2) in auto)

lemma serialize_id_changed:
  assumes "serialize_id_h H data = (H', r)"
  shows "changed_only (address data) H H' \<and> hget H' data ''location'' = hget H data ''location''"
proof (cases "hget H data ''id''")
  case (Inl e)
  then show ?thesis using assms by (auto simp add: serialize_id_h_def changed_only_refl)
next
  case (Inr i)
  show ?thesis
  proof (cases "htruthy i")
    case True
    then have "H' = hdelete (hset H data ''_id'' i) data ''id''"
      using assms Inr by (simp add: serialize_id_h_def)
    then show ?thesis
      using changed_only_trans[OF hset_changed hdelete_changed, of data H "''_id''" i "''id''"]
      by (simp add: hget_hset_other hget_hdelete_other)
  next
    case False
    then show ?thesis using assms Inr by (auto simp add: serialize_id_h_def changed_only_refl)
  qed
qed

lemma set_after_inject:
  assumes "inject H j = (H1, v)" "hget H data ''location'' = Inr l" "k \<noteq> ''location''"
  shows "changed_only (address data) H (hset H1 data k v) \<and>
         hget (hset H1 data k v) data ''location'' = Inr l"
proof -
  have k1: "kept H H1" by (rule inject_kept_self[OF assms(1)])
  have "changed_only (address data) H (hset H1 data k v)"
    using changed_only_trans[OF kept_changed[OF k1] hset_changed] by blast
  moreover have "hget (hset H1 data k v) data ''location'' = Inr l"
    using hget_kept[OF k1 assms(2)] assms(3) by (simp add: hget_hset_other)
  ultimately show ?thesis by simp
qed

lemma serialize_priceClass_changed:
  assumes "serialize_priceClass_h cityConf H data = (H', r)" "hget H data ''location'' = Inr l"
  shows "changed_only (address data) H H' \<and> hget H' data ''location'' = Inr l"
proof (cases "\<exists>pc. (\<exists>prices. hget H data ''prices'' = Inr prices \<and> htruthy prices) \<and>
                cityConf \<noteq> None \<and> getPriceClass_h H data cityConf = Inr pc")
  case True
  then obtain pc prices where p: "hget H data ''prices'' = Inr prices" "htruthy prices"
    "cityConf \<noteq> None" "getPriceClass_h H data cityConf = Inr pc" by blast
  obtain H1 v where i: "inject H pc = (H1, v)" by (cases "inject H pc")
  have "H' = hset H1 data ''priceClass'' v"
    using assms(1) p i by (simp add: serialize_priceClass_h_def)
  then show ?thesis using set_after_inject[OF i assms(2), of "''priceClass''"] by simp
next
  case False
  then have "H' = H" using assms(1)
    by (auto simp add: serialize_priceClass_h_def split: sum.splits if_splits)
  then show ?thesis using assms(2) by (simp add: changed_only_refl)
qed

lemma serialize_queryText_changed:
  assumes "serialize_queryText_h tbl H data = (H', r)"
  shows "changed_only (address data) H H'"
proof (cases "\<exists>t. (\<exists>q. hget H data ''queryText'' = Inr q \<and> \<not> htruthy q) \<and>
               bind_err (hget H data ''name'') (\<lambda>name. unidecode tbl (read H name)) = Inr t")
  case True
  then obtain t q where p: "hget H data ''queryText'' = Inr q" "\<not> htruthy q"
    "bind_err (hget H data ''name'') (\<lambda>name. unidecode tbl (read H name)) = Inr t" by blast
  obtain H1 v where i: "inject H t = (H1, v)" by (cases "inject H t")
  have "H' = hset H1 data ''queryText'' v"
    using assms p i by (simp add: serialize_queryText_h_def)
  then show ?thesis
    using changed_only_trans[OF kept_changed[OF inject_kept_self[OF i]] hset_changed] by blast
next
  case False
  then have "H' = H" using assms
    by (auto simp add: serialize_queryText_h_def split: sum.splits if_splits)
  then show ?thesis by (simp add: changed_only_refl)
qed

lemma serialize_coordinates_changed:
  assumes "serialize_coordinates_h H data = (H', r)" "hget H data ''location'' = Inr l"
  shows "changed_only (address l) H H'"
proof -
  let ?q = "bind_err (hget H data ''location'') (\<lambda>location.
             if \<not> htruthy location then Inr None
             else bind_err (hget H location ''coordinates'') (\<lambda>coordinates.
               if \<not> htruthy coordinates then Inr None
               else bind_err (hget H coordinates ''longitude'') (\<lambda>longitude.
                    bind_err (hget H coordinates ''latitude'') (\<lambda>latitude.
                      Inr (Some (location, longitude, latitude))))))"
  show ?thesis
  proof (cases ?q)
    case (Inl e)
    then have "H' = H" using assms(1) by (simp add: serialize_coordinates_h_def)
    then show ?thesis by (simp add: changed_only_refl)
  next
    case (Inr res)
    show ?thesis
    proof (cases res)
      case None
      then have "H' = H" using assms(1) Inr by (simp add: serialize_coordinates_h_def)
      then show ?thesis by (simp add: changed_only_refl)
    next
      case (Some t)
      obtain location longitude latitude where t: "t = (location, longitude, latitude)"
        by (cases t)
      have loc: "location = l" using Inr Some t assms(2)
        by (auto simp add: bind_err_def split: sum.splits if_splits)
      obtain H1 pair where a1: "alloc H (HArr [longitude, latitude]) = (H1, pair)"
        by (cases "alloc H (HArr [longitude, latitude])")
      obtain H2 point
        where a2: "alloc H1 (HObj [(''type'', HStr ''Point''), (''coordinates'', pair)]) = (H2, point)"
        by (cases "alloc H1 (HObj [(''type'', HStr ''Point''), (''coordinates'', pair)])")
      have "H' = hset H2 l ''coordinates'' point"
        using assms(1) Inr Some t loc a1 a2 by (simp add: serialize_coordinates_h_def)
      moreover have "changed_only (address l) H H2"
        using changed_only_trans[OF alloc_changed[OF a1] alloc_changed[OF a2]] by blast
      ultimately show ?thesis using changed_only_trans[OF _ hset_changed] by blast
    qed
  qed
qed

lemma serialize_h_changed:
  assumes "serialize_h g tbl H data = (H', r)" "hget H data ''location'' = Inr l"
  shows "changed_only (address data \<union> address l) H H' \<and> (\<forall>x. r = Inr x \<longrightarrow> x = data)"
proof -
  let ?S = "address data \<union> address l"
  obtain H1 r1 where b1: "serialize_id_h H data = (H1, r1)" by (cases "serialize_id_h H data")
  from serialize_id_changed[OF b1] assms(2)
  have c1: "changed_only ?S H H1" and l1: "hget H1 data ''location'' = Inr l"
    by (auto intro: changed_only_mono)
  show ?thesis
  proof (cases "\<exists>cc. r1 = Inr () \<and> serialize_cityConf_h g H1 data = Inr cc")
    case False
    then have "H' = H1 \<and> (\<exists>e. r = Inl e)" using assms(1) b1
      by (cases r1; cases "serialize_cityConf_h g H1 data")
         (auto simp add: serialize_h_def hbind_def)
    then show ?thesis using c1 by auto
  next
    case True
    then obtain cc where r1: "r1 = Inr ()" and cc: "serialize_cityConf_h g H1 data = Inr cc"
      by blast
    obtain H3 r3 where b3: "serialize_priceClass_h cc H1 data = (H3, r3)"
      by (cases "serialize_priceClass_h cc H1 data")
    from serialize_priceClass_changed[OF b3 l1]
    have c3: "changed_only ?S H H3" and l3: "hget H3 data ''location'' = Inr l"
      using c1 by (auto intro: changed_only_trans changed_only_mono)
    obtain H4 r4 where b4: "serialize_coordinates_h H3 data = (H4, r4)"
      by (cases "serialize_coordinates_h H3 data")
    from serialize_coordinates_changed[OF b4 l3]
    have c4: "changed_only ?S H H4"
      using c3 by (auto intro: changed_only_trans changed_only_mono)
    obtain H5 r5 where b5: "serialize_queryText_h tbl H4 data = (H5, r5)"
      by (cases "serialize_queryText_h tbl H4 data")
    from serialize_queryText_changed[OF b5]
    have c5: "changed_only ?S H H5"
      using c4 by (auto intro: changed_only_trans changed_only_mono)
    have "(H', r) = (case r3 of Inl e \<Rightarrow> (H3, Inl e) | Inr _ \<Rightarrow>
             (case r4 of Inl e \<Rightarrow> (H4, Inl e) | Inr _ \<Rightarrow>
             (case r5 of Inl e \<Rightarrow> (H5, Inl e) | Inr _ \<Rightarrow> (H5, Inr data))))"
      using assms(1) b1 r1 cc b3 b4 b5
      by (auto simp add: serialize_h_def hbind_def split: sum.splits)
    then show ?thesis using c3 c4 c5 by (auto split: sum.splits)
  qed
qed


lemma deep_copy_independent: "independent_copy deep_copy"
  using inject_kept(1)[OF kept_refl]
  by (auto simp add: independent_copy_def deep_copy_def split: prod.splits)

lemma hget_no_object:
  assumes "hget H v k = Inl e"
  shows "hget H v k' = Inl e"
  using assms by (cases v) (auto split: if_splits)

lemma serialize_h_no_object:
  assumes "hget H data ''location'' = Inl e"
  shows "serialize_h g tbl H data = (H, Inl e)"
  using hget_no_object[OF assms, of "''id''"]
  by (simp add: serialize_h_def serialize_id_h_def hbind_def)

lemma sample_serialize:
  "serialize_h sample_get sample_tbl sample_store (Ref 0)
     = ([HObj [(''name'', HStr ''V''), (''location'', Ref 1), (''prices'', Ref 3),
               (''_id'', HStr ''a1''), (''priceClass'', HNum 3), (''queryText'', HStr ''V'')],
         HObj [(''country'', HStr ''DK''), (''city'', HStr ''Odense''), (''coordinates'', Ref 6)],
         HObj [(''longitude'', HNum 10), (''latitude'', HNum 55)],
         HObj [(''coke'', HNum (5 / 2)), (''beer'', HNum 6)],
         HObj [(''name'', HStr ''W''), (''location'', Ref 1)],
         HArr [HNum 10, HNum 55],
         HObj [(''type'', HStr ''Point''), (''coordinates'', Ref 5)]],
        Inr (Ref 0))"
  by code_simp

text \<open>
  On the samples the two functions over the store give the documents that the functions
  over plain structures give.
\<close>

lemma sample_serialize_agrees:
  "(case serialize_h sample_get sample_tbl sample_store (Ref 0) of (H, r) \<Rightarrow> (read H (Ref 0), r))
     = (fst (serialize sample_get sample_tbl (read sample_store (Ref 0))), Inr (Ref 0)) \<and>
   snd (serialize sample_get sample_tbl (read sample_store (Ref 0))) = None"
  by code_simp

lemma sample_deserialize_agrees:
  "(case deserialize_h deep_copy deep_copy sample_get [0, 50, 100] stored_store (Ref 0) of
      (H, Inr w) \<Rightarrow> Inr (read H w) | (H, Inl e) \<Rightarrow> Inl e)
     = deserialize sample_get [0, 50, 100] (Document (read stored_store (Ref 0)))"
  by code_simp

lemma sample_deserialize:
  "deserialize_h deep_copy deep_copy sample_get [0, 50, 100] stored_store (Ref 0)
     = (stored_store @
        [HArr [HNum 10, HNum 55],
         HObj [(''type'', HStr ''Point''), (''coordinates'', Ref 7)],
         HObj [(''country'', HStr ''DK''), (''city'', HStr ''Odense''), (''coordinates'', Ref 16)],
         HObj [(''_id'', HStr ''i1''), (''mime'', HStr ''image/png'')],
         HArr [Ref 10],
         HObj [(''entrance'', HNum 7)],
         HObj [(''name'', HStr ''V''), (''location'', Ref 9), (''images'', Ref 15),
               (''capacity'', HNum 75), (''fees'', Ref 12), (''id'', HStr ''a1''),
               (''capacityRange'', Ref 17), (''currency'', HStr ''EUR''),
               (''entranceFeeRange'', Ref 18)],
         HObj [(''mime'', HStr ''image/png''), (''id'', HStr ''i1'')],
         HArr [Ref 14],
         HObj [(''longitude'', HNum 10), (''latitude'', HNum 55)],
         HArr [HNum 50, HNum 100],
         HArr [HNum 5, HNum 10]],
        Inr (Ref 13))"
  by code_simp


text \<open>
  C2 (as stated, refuted).  \<open>serialize\<close> writes to the payload it is given: after the call
  the caller's object has lost \<open>id\<close> and has \<open>_id\<close>, \<open>priceClass\<close> and \<open>queryText\<close>, and its
  location object, which another venue refers to as well, has its coordinates replaced.
\<close>

theorem purity_counterexample:
  "fst (serialize_h sample_get sample_tbl sample_store (Ref 0)) ! 0
     = HObj [(''name'', HStr ''V''), (''location'', Ref 1), (''prices'', Ref 3),
             (''_id'', HStr ''a1''), (''priceClass'', HNum 3), (''queryText'', HStr ''V'')] \<and>
   sample_store ! 0
     = HObj [(''id'', HStr ''a1''), (''name'', HStr ''V''), (''location'', Ref 1),
             (''prices'', Ref 3)] \<and>
   fst (serialize_h sample_get sample_tbl sample_store (Ref 0)) ! 0 \<noteq> sample_store ! 0 \<and>
   fst (serialize_h sample_get sample_tbl sample_store (Ref 0)) ! 1 \<noteq> sample_store ! 1"
  by (simp add: sample_serialize) (simp add: sample_store_def)

text \<open>
  C2 (amended).  \<open>deserialize\<close> leaves the caller's argument unmodified, and every other
  object that existed before the call: given that \<open>_.cloneDeep\<close> and \<open>toObject\<close> return
  independent copies, the store after the call begins with the store before it, also
  after an exception, and the view it returns is a new object.  \<open>serialize\<close> is not pure:
  it returns the payload object itself and writes to it and to its location object; it
  changes no other object that existed before the call.
\<close>

theorem argument_objects:
  "(independent_copy cloneDeep \<and> independent_copy toObject \<and>
    deserialize_h cloneDeep toObject g caps H venue = (H', r)
      \<longrightarrow> take (length H) H' = H \<and> (\<forall>a. r = Inr (Ref a) \<longrightarrow> length H \<le> a)) \<and>
   (serialize_h g' tbl H data = (H'', r')
      \<longrightarrow> (\<forall>x. r' = Inr x \<longrightarrow> x = data) \<and> length H \<le> length H'' \<and>
          (\<forall>l a. hget H data ''location'' = Inr l \<and> a < length H \<and> Ref a \<noteq> data \<and> Ref a \<noteq> l
                   \<longrightarrow> H'' ! a = H ! a) \<and>
          (\<forall>e. hget H data ''location'' = Inl e \<longrightarrow> H'' = H))"
proof (rule conjI; rule impI)
  assume a: "independent_copy cloneDeep \<and> independent_copy toObject \<and>
    deserialize_h cloneDeep toObject g caps H venue = (H', r)"
  then have "kept H H'" using deserialize_h_kept[of cloneDeep toObject H g caps venue] by simp
  moreover have "fresh (length H) w" if "r = Inr w" for w
    using deserialize_h_result[of cloneDeep toObject g caps H venue H' w] a that by simp
  ultimately show "take (length H) H' = H \<and> (\<forall>a. r = Inr (Ref a) \<longrightarrow> length H \<le> a)"
    by (auto simp add: kept_def)
next
  assume s: "serialize_h g' tbl H data = (H'', r')"
  show "(\<forall>x. r' = Inr x \<longrightarrow> x = data) \<and> length H \<le> length H'' \<and>
          (\<forall>l a. hget H data ''location'' = Inr l \<and> a < length H \<and> Ref a \<noteq> data \<and> Ref a \<noteq> l
                   \<longrightarrow> H'' ! a = H ! a) \<and>
          (\<forall>e. hget H data ''location'' = Inl e \<longrightarrow> H'' = H)"
  proof (cases "hget H data ''location''")
    case (Inl e)
    then show ?thesis using serialize_h_no_object[OF Inl, of g' tbl] s by auto
  next
    case (Inr l)
    have adr: "a \<notin> address v" if "Ref a \<noteq> v" for a v using that by (cases v) auto
    from serialize_h_changed[OF s Inr] show ?thesis
      using Inr adr by (auto simp add: changed_only_def)
  qed
qed

theorem argument_objects_witness:
  "deserialize_h deep_copy deep_copy sample_get [0, 50, 100] stored_store (Ref 0)
     = (stored_store @
        [HArr [HNum 10, HNum 55],
         HObj [(''type'', HStr ''Point''), (''coordinates'', Ref 7)],
         HObj [(''country'', HStr ''DK''), (''city'', HStr ''Odense''), (''coordinates'', Ref 16)],
         HObj [(''_id'', HStr ''i1''), (''mime'', HStr ''image/png'')],
         HArr [Ref 10],
         HObj [(''entrance'', HNum 7)],
         HObj [(''name'', HStr ''V''), (''location'', Ref 9), (''images'', Ref 15),
               (''capacity'', HNum 75), (''fees'', Ref 12), (''id'', HStr ''a1''),
               (''capacityRange'', Ref 17), (''currency'', HStr ''EUR''),
               (''entranceFeeRange'', Ref 18)],
         HObj [(''mime'', HStr ''image/png''), (''id'', HStr ''i1'')],
         HArr [Ref 14],
         HObj [(''longitude'', HNum 10), (''latitude'', HNum 55)],
         HArr [HNum 50, HNum 100],
         HArr [HNum 5, HNum 10]],
        Inr (Ref 13)) \<and>
   independent_copy deep_copy \<and>
   fst (serialize_h sample_get sample_tbl sample_store (Ref 0)) ! 4 = sample_store ! 4 \<and>
   snd (serialize_h sample_get sample_tbl sample_store (Ref 0)) = Inr (Ref 0)"
  using argument_objects[where cloneDeep = deep_copy and toObject = deep_copy
      and g = sample_get and caps = "[0, 50, 100]" and H = stored_store and venue = "Ref 0"
      and H' = "fst (deserialize_h deep_copy deep_copy sample_get [0, 50, 100] stored_store (Ref 0))"
      and r = "snd (deserialize_h deep_copy deep_copy sample_get [0, 50, 100] stored_store (Ref 0))"]
    argument_objects[where g' = sample_get and tbl = sample_tbl and H = sample_store
      and data = "Ref 0"
      and H'' = "fst (serialize_h sample_get sample_tbl sample_store (Ref 0))"
      and r' = "snd (serialize_h sample_get sample_tbl sample_store (Ref 0))"]
    deep_copy_independent sample_deserialize
  by (simp add: sample_serialize) (simp add: sample_store_def)

end
